theory Spec2Isabelle
  imports Main "HOL-Library.Word"
begin

section \<open>Strings\<close>

text \<open>
  A JavaScript string is a sequence of UTF-16 code units: \<open>length\<close> counts code units and
  a regular expression without the \<open>u\<close> flag matches one code unit at a time. Identifiers
  (user ids, interaction ids) are opaque keys that are only compared, and are kept as
  \<open>string\<close>.
\<close>

type_synonym code_unit = "16 word"
type_synonym js_string = "code_unit list"

text \<open>The class \<open>[a-zA-Z0-9_\- ]\<close> of the regular expression in \<open>sanitizeInput\<close>.\<close>

definition allowedChar :: "code_unit \<Rightarrow> bool" where
  "allowedChar c =
     ((0x61 \<le> c \<and> c \<le> 0x7A) \<or> (0x41 \<le> c \<and> c \<le> 0x5A) \<or> (0x30 \<le> c \<and> c \<le> 0x39)
      \<or> c = 0x5F \<or> c = 0x2D \<or> c = 0x20)"

text \<open>
  \<open>sanitizeInput\<close>: a falsy input (\<open>null\<close>, \<open>undefined\<close>, the empty string) gives the
  empty string; otherwise every code unit outside the class is replaced by nothing.
\<close>

definition sanitizeInput :: "js_string option \<Rightarrow> js_string" where
  "sanitizeInput input =
     (case input of None \<Rightarrow> [] | Some str \<Rightarrow> if str = [] then [] else filter allowedChar str)"

text \<open>
  The code units that \<open>String.prototype.trim\<close> strips: WhiteSpace and LineTerminator of
  ECMAScript.
\<close>

definition isWhiteSpace :: "code_unit \<Rightarrow> bool" where
  "isWhiteSpace c =
     (c = 0x9 \<or> c = 0xA \<or> c = 0xB \<or> c = 0xC \<or> c = 0xD \<or> c = 0x20 \<or> c = 0xA0
      \<or> c = 0x1680 \<or> (0x2000 \<le> c \<and> c \<le> 0x200A) \<or> c = 0x2028 \<or> c = 0x2029
      \<or> c = 0x202F \<or> c = 0x205F \<or> c = 0x3000 \<or> c = 0xFEFF)"

definition trim :: "js_string \<Rightarrow> js_string" where
  "trim str = rev (dropWhile isWhiteSpace (rev (dropWhile isWhiteSpace str)))"

fun startsWith :: "js_string \<Rightarrow> js_string \<Rightarrow> bool" where
  "startsWith str [] = True"
| "startsWith [] (q # qs) = False"
| "startsWith (c # cs) (q # qs) = (c = q \<and> startsWith cs qs)"

fun includesStr :: "js_string \<Rightarrow> js_string \<Rightarrow> bool" where
  "includesStr [] q = (q = [])"
| "includesStr (c # cs) q = (startsWith (c # cs) q \<or> includesStr cs q)"

section \<open>Rate limiting\<close>

text \<open>
  \<open>userRequestTimes\<close> is a \<open>Map\<close> from user id to the array of request times;
  \<open>Date.now()\<close> is passed in as \<open>now\<close>.
\<close>

type_synonym request_times = "string \<rightharpoonup> int list"

definition MAX_USER_REQUESTS_PER_MINUTE :: nat where
  "MAX_USER_REQUESTS_PER_MINUTE = 3"

definition getTimes :: "request_times \<Rightarrow> string \<Rightarrow> int list" where
  "getTimes userRequestTimes userId =
     (case userRequestTimes userId of None \<Rightarrow> [] | Some userTimes \<Rightarrow> userTimes)"

definition isRateLimited :: "int \<Rightarrow> request_times \<Rightarrow> string \<Rightarrow> bool" where
  "isRateLimited now userRequestTimes userId =
     (let oneMinuteAgo = now - 60000;
          userTimes = getTimes userRequestTimes userId;
          recentRequests = filter (\<lambda>time. time > oneMinuteAgo) userTimes
      in length recentRequests \<ge> MAX_USER_REQUESTS_PER_MINUTE)"

definition recordRequest :: "int \<Rightarrow> string \<Rightarrow> request_times \<Rightarrow> request_times" where
  "recordRequest now userId userRequestTimes =
     userRequestTimes(userId \<mapsto> getTimes userRequestTimes userId @ [now])"

text \<open>The periodic sweep: old times are dropped, and a user left with none is deleted.\<close>

definition cleanup :: "int \<Rightarrow> request_times \<Rightarrow> request_times" where
  "cleanup now userRequestTimes =
     (\<lambda>userId.
        case userRequestTimes userId of
          None \<Rightarrow> None
        | Some userTimes \<Rightarrow>
            (let validTimes = filter (\<lambda>time. time > now - 60000) userTimes
             in if validTimes = [] then None else Some validTimes))"

text \<open>
  A history of the table: requests recorded and sweeps run, each at the clock value it
  read, oldest first.
\<close>

datatype rate_event = Recorded string int | Swept int

fun applyRate :: "request_times \<Rightarrow> rate_event \<Rightarrow> request_times" where
  "applyRate m (Recorded userId now) = recordRequest now userId m"
| "applyRate m (Swept now) = cleanup now m"

definition tableAfter :: "rate_event list \<Rightarrow> request_times" where
  "tableAfter history = foldl applyRate Map.empty history"

fun recordedTimes :: "string \<Rightarrow> rate_event list \<Rightarrow> int list" where
  "recordedTimes userId [] = []"
| "recordedTimes userId (Recorded u t # history) =
     (if u = userId then t # recordedTimes userId history else recordedTimes userId history)"
| "recordedTimes userId (Swept t # history) = recordedTimes userId history"

fun sweepTimes :: "rate_event list \<Rightarrow> int list" where
  "sweepTimes [] = []"
| "sweepTimes (Recorded u t # history) = sweepTimes history"
| "sweepTimes (Swept t # history) = t # sweepTimes history"

section \<open>Interactions, queue items and replies\<close>

text \<open>
  What the code reads of a discord.js interaction: its id, the id of its user, which of
  the type guards hold for it, the string options of a slash command, and the content of
  the message a context-menu command targets. \<open>isApplicationCommand\<close> holds of slash
  commands and of context-menu commands; \<open>isCommand\<close> only of slash commands.
\<close>

datatype interaction_kind =
  Autocomplete | MessageContextMenu | UserContextMenu | Command | OtherInteraction

record Interaction =
  interactionId :: string
  user :: string
  kind :: interaction_kind
  textOption :: "js_string option"
  gifOption :: "js_string option"
  targetContent :: js_string

definition isApplicationCommand :: "Interaction \<Rightarrow> bool" where
  "isApplicationCommand i = (kind i = MessageContextMenu \<or> kind i = UserContextMenu \<or> kind i = Command)"

record QueueItem =
  interaction :: Interaction
  text' :: js_string
  gif :: js_string
  userId :: string
  timestamp :: int

text \<open>The messages the bot sends, by their text in the source.\<close>

datatype reply =
    SomethingWentWrong
  | QueueIsFull
  | TooManyInQueue
  | InQueue int int
  | Files
  | TooQuickly
  | BannedUser
  | MustHaveText

section \<open>The browser pool\<close>

text \<open>Browser and page handles are opaque; a number stands for each.\<close>

record BrowserPool =
  browser :: "nat option"
  page :: "nat option"
  inUse :: bool
  lastUsed :: int

definition BROWSER_POOL_initial :: BrowserPool where
  "BROWSER_POOL_initial = \<lparr>browser = None, page = None, inUse = False, lastUsed = 0\<rparr>"

text \<open>
  \<open>getBrowserPage\<close> up to its first \<open>await\<close>: it returns the pooled page, throws, or goes
  on to close the old browser and launch a new one, which is asynchronous.
\<close>

datatype acquire = GotPage nat | BrowserInUse | MustLaunch

definition getBrowserPage :: "int \<Rightarrow> BrowserPool \<Rightarrow> acquire \<times> BrowserPool" where
  "getBrowserPage now pool =
     (case (browser pool, page pool) of
        (Some b, Some p) \<Rightarrow>
          if \<not> inUse pool then (GotPage p, pool\<lparr>inUse := True, lastUsed := now\<rparr>)
          else (BrowserInUse, pool)
      | (Some b, None) \<Rightarrow> if inUse pool then (BrowserInUse, pool) else (MustLaunch, pool)
      | (None, _) \<Rightarrow> (MustLaunch, pool))"

text \<open>
  The end of \<open>getBrowserPage\<close> after a launch that succeeded; \<open>now\<close> is the clock value
  read when \<open>getBrowserPage\<close> was entered.
\<close>

definition launched :: "int \<Rightarrow> nat \<Rightarrow> nat \<Rightarrow> BrowserPool \<Rightarrow> BrowserPool" where
  "launched now b p pool = pool\<lparr>browser := Some b, page := Some p, inUse := True, lastUsed := now\<rparr>"

definition releaseBrowserPage :: "int \<Rightarrow> BrowserPool \<Rightarrow> BrowserPool" where
  "releaseBrowserPage now pool = pool\<lparr>inUse := False, lastUsed := now\<rparr>"

section \<open>Jobs in flight\<close>

datatype cause = InUseError | LaunchFailed | PrepareFailed | PageFailed

datatype error =
    TextCannotBeEmpty
  | TextIsTooLong
  | FailedToGenerateImage cause
  | GenerateGIFFailed
  | EditReplyFailed
  | ProcessingTimeout

text \<open>The two checks at the head of \<open>generateImage\<close>, before its \<open>try\<close> block.\<close>

definition generateImage_checks :: "js_string \<Rightarrow> error option" where
  "generateImage_checks str =
     (if str = [] \<or> length (trim str) = 0 then Some TextCannotBeEmpty
      else if length str > 5000 then Some TextIsTooLong
      else None)"

text \<open>
  Where \<open>processGif\<close> stands for one job: awaiting the directory and the page source of
  \<open>generateImage\<close>, awaiting the launch inside \<open>getBrowserPage\<close> (entered at the time
  kept), holding the page while it is rendered and captured, awaiting \<open>generateGIF\<close>,
  awaiting the \<open>editReply\<close> that sends the file, or over.
\<close>

datatype progress =
    Preparing
  | Launching int
  | OnPage nat
  | ComposingGif
  | SendingFiles
  | Returned
  | Threw error

datatype promise_state = Pending | Resolved | Rejected error

datatype timer_state = Armed | Fired | Cleared

text \<open>
  Where the function awaiting \<open>processGifWithTimeout\<close> stands: at that \<open>await\<close>, in its
  \<open>catch\<close> awaiting the \<open>editReply\<close> of the failure message, or past its \<open>finally\<close>.
  The function is \<open>handleNewGIFWithGif\<close> for a job of the fast path and
  \<open>processNextInQueue\<close> for a job taken from the queue.
\<close>

datatype handler_state = AwaitingGuard | SendingError | Completed

datatype origin = FastPath | FromQueue

record Job =
  item :: QueueItem
  origin :: origin
  progress :: progress
  timeoutId :: timer_state
  promise :: promise_state
  handler :: handler_state

record bot_state =
  gifQueue :: "QueueItem list"
  processingCount :: int
  BROWSER_POOL :: BrowserPool
  jobs :: "Job list"
  replies :: "(string \<times> reply) list"
  dispatchTimers :: "nat list"
  positionWaits :: nat
  outputs :: "string list"

definition initial :: bot_state where
  "initial = \<lparr>gifQueue = [], processingCount = 0, BROWSER_POOL = BROWSER_POOL_initial,
     jobs = [], replies = [], dispatchTimers = [], positionWaits = 0, outputs = []\<rparr>"

definition MAX_QUEUE_SIZE :: nat where
  "MAX_QUEUE_SIZE = 100"

definition MAX_PROCESSING_TIME_MS :: nat where
  "MAX_PROCESSING_TIME_MS = 30000"

definition MAX_CONCURRENT_PROCESSING :: int where
  "MAX_CONCURRENT_PROCESSING = 5"

fun findIndex :: "('a \<Rightarrow> bool) \<Rightarrow> 'a list \<Rightarrow> int" where
  "findIndex P [] = - 1"
| "findIndex P (x # xs) =
     (if P x then 0 else (let i = findIndex P xs in if i = - 1 then - 1 else i + 1))"

definition getQueuePosition :: "bot_state \<Rightarrow> string \<Rightarrow> int" where
  "getQueuePosition s u = findIndex (\<lambda>it. userId it = u) (gifQueue s) + 1"

definition getUserQueueCount :: "bot_state \<Rightarrow> string \<Rightarrow> nat" where
  "getUserQueueCount s u = length (filter (\<lambda>it. userId it = u) (gifQueue s))"

definition isQueueFull :: "bot_state \<Rightarrow> bool" where
  "isQueueFull s = (length (gifQueue s) \<ge> MAX_QUEUE_SIZE)"

definition canProcessMore :: "bot_state \<Rightarrow> bool" where
  "canProcessMore s = (processingCount s < MAX_CONCURRENT_PROCESSING)"

definition addToQueue :: "QueueItem \<Rightarrow> bot_state \<Rightarrow> bool \<times> bot_state" where
  "addToQueue it s =
     (if isQueueFull s then (False, s)
      else if getUserQueueCount s (userId it) \<ge> 2 then (False, s)
      else (True, s\<lparr>gifQueue := gifQueue s @ [it]\<rparr>))"

definition editReply :: "Interaction \<Rightarrow> reply \<Rightarrow> bot_state \<Rightarrow> bot_state" where
  "editReply i r s = s\<lparr>replies := replies s @ [(interactionId i, r)]\<rparr>"

definition updJob :: "nat \<Rightarrow> (Job \<Rightarrow> Job) \<Rightarrow> bot_state \<Rightarrow> bot_state" where
  "updJob j f s = s\<lparr>jobs := (jobs s)[j := f (jobs s ! j)]\<rparr>"

definition clearTimeout :: "nat \<Rightarrow> bot_state \<Rightarrow> bot_state" where
  "clearTimeout j s =
     updJob j (\<lambda>jb. if timeoutId jb = Armed then jb\<lparr>timeoutId := Cleared\<rparr> else jb) s"

text \<open>
  \<open>reject\<close> of the promise of \<open>processGifWithTimeout\<close>. A promise already settled stays
  as it is. Otherwise the awaiting function resumes in its \<open>catch\<close>, which sends the
  failure message and awaits that.
\<close>

definition reject :: "nat \<Rightarrow> error \<Rightarrow> bot_state \<Rightarrow> bot_state" where
  "reject j e s =
     (if promise (jobs s ! j) = Pending
      then editReply (interaction (item (jobs s ! j))) SomethingWentWrong
             (updJob j (\<lambda>jb. jb\<lparr>promise := Rejected e, handler := SendingError\<rparr>) s)
      else s)"

text \<open>\<open>processGif\<close> throws: the \<open>catch\<close> of \<open>processGifWithTimeout\<close>.\<close>

definition processGifThrows :: "nat \<Rightarrow> error \<Rightarrow> bot_state \<Rightarrow> bot_state" where
  "processGifThrows j e s = reject j e (clearTimeout j (updJob j (\<lambda>jb. jb\<lparr>progress := Threw e\<rparr>) s))"

text \<open>
  \<open>processGifWithTimeout\<close> up to its first suspension: the timer is set and \<open>processGif\<close>
  calls \<open>generateImage\<close>, whose two checks run at once.
\<close>

definition processGifWithTimeout :: "origin \<Rightarrow> QueueItem \<Rightarrow> bot_state \<Rightarrow> bot_state" where
  "processGifWithTimeout og it s =
     (let j = length (jobs s);
          s1 = s\<lparr>jobs := jobs s @ [\<lparr>item = it, origin = og, progress = Preparing,
                   timeoutId = Armed, promise = Pending, handler = AwaitingGuard\<rparr>]\<rparr>
      in case generateImage_checks (text' it) of
           Some e \<Rightarrow> processGifThrows j e s1
         | None \<Rightarrow> s1)"

definition processNextInQueue :: "bot_state \<Rightarrow> bot_state" where
  "processNextInQueue s =
     (if gifQueue s = [] \<or> \<not> canProcessMore s then s
      else case gifQueue s of
             [] \<Rightarrow> s
           | it # rest \<Rightarrow>
               processGifWithTimeout FromQueue it
                 (s\<lparr>gifQueue := rest, processingCount := processingCount s + 1\<rparr>))"

text \<open>
  The \<open>finally\<close> block of the awaiting function: \<open>handleNewGIFWithGif\<close> calls
  \<open>processNextInQueue\<close>, \<open>processNextInQueue\<close> sets a timer of 100 ms for it.
\<close>

definition finallyBlock :: "nat \<Rightarrow> bot_state \<Rightarrow> bot_state" where
  "finallyBlock j s =
     (let s1 = updJob j (\<lambda>jb. jb\<lparr>handler := Completed\<rparr>)
                 (s\<lparr>processingCount := processingCount s - 1\<rparr>)
      in case origin (jobs s ! j) of
           FastPath \<Rightarrow> processNextInQueue s1
         | FromQueue \<Rightarrow> s1\<lparr>dispatchTimers := dispatchTimers s1 @ [100]\<rparr>)"

definition resolve :: "nat \<Rightarrow> bot_state \<Rightarrow> bot_state" where
  "resolve j s =
     (if promise (jobs s ! j) = Pending
      then finallyBlock j (updJob j (\<lambda>jb. jb\<lparr>promise := Resolved\<rparr>) s)
      else s)"

definition processGifReturns :: "nat \<Rightarrow> bot_state \<Rightarrow> bot_state" where
  "processGifReturns j s = resolve j (clearTimeout j (updJob j (\<lambda>jb. jb\<lparr>progress := Returned\<rparr>) s))"

text \<open>
  \<open>generateImage\<close> fails inside its \<open>try\<close> block: the error is wrapped, the \<open>finally\<close>
  releases the page, and \<open>processGif\<close> throws in turn.
\<close>

definition generateImageFails :: "nat \<Rightarrow> cause \<Rightarrow> int \<Rightarrow> bot_state \<Rightarrow> bot_state" where
  "generateImageFails j c now s =
     processGifThrows j (FailedToGenerateImage c)
       (s\<lparr>BROWSER_POOL := releaseBrowserPage now (BROWSER_POOL s)\<rparr>)"

definition queueItem :: "Interaction \<Rightarrow> js_string \<Rightarrow> js_string \<Rightarrow> int \<Rightarrow> QueueItem" where
  "queueItem i str g now =
     \<lparr>interaction = i, text' = str, gif = g, userId = user i, timestamp = now\<rparr>"

text \<open>
  \<open>handleNewGIFWithGif\<close> up to its first suspension. In the queue branch that is the
  \<open>await\<close> of the \<open>editReply\<close> with the position; \<open>processNextInQueue\<close> is called when
  that reply has been sent.
\<close>

definition handleNewGIFWithGif :: "Interaction \<Rightarrow> js_string \<Rightarrow> js_string \<Rightarrow> int \<Rightarrow> bot_state \<Rightarrow> bot_state" where
  "handleNewGIFWithGif i str g now s =
     (let it = queueItem i str g now in
      if canProcessMore s \<and> gifQueue s = []
      then processGifWithTimeout FastPath it (s\<lparr>processingCount := processingCount s + 1\<rparr>)
      else case addToQueue it s of
             (False, s1) \<Rightarrow> editReply i (if isQueueFull s1 then QueueIsFull else TooManyInQueue) s1
           | (True, s1) \<Rightarrow>
               (editReply i (InQueue (getQueuePosition s1 (user i))
                                (int (length (gifQueue s1)) + processingCount s1)) s1)
                 \<lparr>positionWaits := positionWaits s1 + 1\<rparr>)"

section \<open>The event loop\<close>

text \<open>
  One event is one turn of the event loop: a call from the chat layer, a timer that
  fires, or an awaited operation that settles (the flag says whether it succeeded).
  Events that read the clock carry its value. An event that is not enabled in a state
  leaves it as it is.
\<close>

datatype event =
    Submit Interaction js_string js_string int
  | PositionReplied bool
  | DispatchTimerFired
  | DeadlineFired nat
  | PrepareDone nat bool int
  | LaunchDone nat "(nat \<times> nat) option" int
  | PageDone nat bool int
  | GifDone nat bool
  | FilesReplied nat bool
  | ErrorReplied nat bool

definition outputName :: "Interaction \<Rightarrow> string" where
  "outputName i = user i @ ''-'' @ interactionId i @ ''-text.png''"

fun step :: "bot_state \<Rightarrow> event \<Rightarrow> bot_state" where
  "step s (Submit i str g now) = handleNewGIFWithGif i str g now s"
| "step s (PositionReplied ok) =
     (if positionWaits s = 0 then s
      else (let s1 = s\<lparr>positionWaits := positionWaits s - 1\<rparr>
            in if ok then processNextInQueue s1 else s1))"
| "step s DispatchTimerFired =
     (case dispatchTimers s of
        [] \<Rightarrow> s
      | d # rest \<Rightarrow> processNextInQueue (s\<lparr>dispatchTimers := rest\<rparr>))"
| "step s (DeadlineFired j) =
     (if j < length (jobs s) \<and> timeoutId (jobs s ! j) = Armed
      then reject j ProcessingTimeout (updJob j (\<lambda>jb. jb\<lparr>timeoutId := Fired\<rparr>) s)
      else s)"
| "step s (PrepareDone j ok now) =
     (if j < length (jobs s) \<and> progress (jobs s ! j) = Preparing
      then if \<not> ok then generateImageFails j PrepareFailed now s
           else case getBrowserPage now (BROWSER_POOL s) of
                  (GotPage p, pool) \<Rightarrow>
                    updJob j (\<lambda>jb. jb\<lparr>progress := OnPage p\<rparr>) (s\<lparr>BROWSER_POOL := pool\<rparr>)
                | (BrowserInUse, pool) \<Rightarrow> generateImageFails j InUseError now s
                | (MustLaunch, pool) \<Rightarrow> updJob j (\<lambda>jb. jb\<lparr>progress := Launching now\<rparr>) s
      else s)"
| "step s (LaunchDone j res now) =
     (if j < length (jobs s)
      then case progress (jobs s ! j) of
             Launching entered \<Rightarrow>
               (case res of
                  None \<Rightarrow> generateImageFails j LaunchFailed now s
                | Some (b, p) \<Rightarrow>
                    updJob j (\<lambda>jb. jb\<lparr>progress := OnPage p\<rparr>)
                      (s\<lparr>BROWSER_POOL := launched entered b p (BROWSER_POOL s)\<rparr>))
           | _ \<Rightarrow> s
      else s)"
| "step s (PageDone j ok now) =
     (if j < length (jobs s)
      then case progress (jobs s ! j) of
             OnPage p \<Rightarrow>
               if ok
               then updJob j (\<lambda>jb. jb\<lparr>progress := ComposingGif\<rparr>)
                      (s\<lparr>BROWSER_POOL := releaseBrowserPage now (BROWSER_POOL s),
                         outputs := outputs s @ [outputName (interaction (item (jobs s ! j)))]\<rparr>)
               else generateImageFails j PageFailed now s
           | _ \<Rightarrow> s
      else s)"
| "step s (GifDone j ok) =
     (if j < length (jobs s) \<and> progress (jobs s ! j) = ComposingGif
      then if ok
           then editReply (interaction (item (jobs s ! j))) Files
                  (updJob j (\<lambda>jb. jb\<lparr>progress := SendingFiles\<rparr>) s)
           else processGifThrows j GenerateGIFFailed s
      else s)"
| "step s (FilesReplied j ok) =
     (if j < length (jobs s) \<and> progress (jobs s ! j) = SendingFiles
      then if ok then processGifReturns j s else processGifThrows j EditReplyFailed s
      else s)"
| "step s (ErrorReplied j ok) =
     (if j < length (jobs s) \<and> handler (jobs s ! j) = SendingError
      then finallyBlock j s
      else s)"

definition run :: "event list \<Rightarrow> bot_state" where
  "run evs = foldl step initial evs"

section \<open>The interaction handler\<close>

text \<open>
  The list of GIF names comes from a module outside these sources and
  \<open>String.prototype.toLowerCase\<close> is the platform's; both are parameters, as is the name
  that \<open>getRandomFile\<close> draws.
\<close>

definition returnGIFQuery :: "(js_string \<Rightarrow> js_string) \<Rightarrow> js_string list \<Rightarrow> js_string \<Rightarrow> js_string list" where
  "returnGIFQuery lower currentGIFs searchQuery =
     take 25 (filter (\<lambda>result. includesStr (lower result) (lower searchQuery)) currentGIFs)"

definition handleAutocomplete :: "(js_string \<Rightarrow> js_string) \<Rightarrow> js_string list \<Rightarrow> Interaction \<Rightarrow> js_string list" where
  "handleAutocomplete lower currentGIFs i =
     (let searchPhrase = sanitizeInput (gifOption i)
      in if searchPhrase = [] then take 25 currentGIFs
         else returnGIFQuery lower currentGIFs searchPhrase)"

text \<open>
  What the handler does with an interaction: answer an autocompletion, reply at once,
  nothing, or go on to \<open>handleNewGIFWithGif\<close> with a text and the name of a GIF.
\<close>

datatype handled =
    Responded "js_string list"
  | Replied reply
  | NoAction
  | NewGIF Interaction js_string js_string

definition handleNewGIF ::
  "(js_string \<Rightarrow> js_string) \<Rightarrow> js_string list \<Rightarrow> js_string \<Rightarrow> int \<Rightarrow> Interaction \<Rightarrow> js_string
     \<Rightarrow> js_string option \<Rightarrow> request_times \<Rightarrow> handled \<times> request_times" where
  "handleNewGIF lower currentGIFs randomGif now i str gifName userRequestTimes =
     (let recorded = recordRequest now (user i) userRequestTimes
      in case gifName of
           None \<Rightarrow> (NewGIF i str randomGif, recorded)
         | Some g \<Rightarrow>
             if g \<noteq> [] \<and> length (returnGIFQuery lower currentGIFs g) = 1
             then (case returnGIFQuery lower currentGIFs g of
                     r # rest \<Rightarrow> (NewGIF i str r, recorded)
                   | [] \<Rightarrow> (NewGIF i str randomGif, recorded))
             else (NewGIF i str randomGif, recorded))"

text \<open>
  The \<open>interactionCreate\<close> listener of \<open>launchBot\<close>. \<open>now\<close> is the clock when the
  interaction arrives, \<open>deferred\<close> says whether \<open>deferReply\<close> succeeded and \<open>later\<close> is the
  clock after it.
\<close>

definition interactionCreate ::
  "string list \<Rightarrow> (js_string \<Rightarrow> js_string) \<Rightarrow> js_string list \<Rightarrow> js_string \<Rightarrow> int \<Rightarrow> bool \<Rightarrow> int
     \<Rightarrow> Interaction \<Rightarrow> request_times \<Rightarrow> handled \<times> request_times" where
  "interactionCreate bannedUsers lower currentGIFs randomGif now deferred later i userRequestTimes =
     (if user i \<in> set bannedUsers \<and> kind i = Autocomplete then (Responded [], userRequestTimes)
      else if user i \<in> set bannedUsers \<and> (kind i = MessageContextMenu \<or> isApplicationCommand i)
      then (Replied BannedUser, userRequestTimes)
      else if kind i = Autocomplete
      then (Responded (handleAutocomplete lower currentGIFs i), userRequestTimes)
      else if isRateLimited now userRequestTimes (user i)
      then (if kind i = MessageContextMenu \<or> isApplicationCommand i
            then (Replied TooQuickly, userRequestTimes)
            else (NoAction, userRequestTimes))
      else if kind i = MessageContextMenu
      then (if targetContent i = [] then (Replied MustHaveText, userRequestTimes)
            else if deferred
            then handleNewGIF lower currentGIFs randomGif later i (targetContent i) None
                   userRequestTimes
            else (NoAction, userRequestTimes))
      else if kind i = Command
      then (if deferred
            then handleNewGIF lower currentGIFs randomGif later i
                   (sanitizeInput (textOption i)) (Some (sanitizeInput (gifOption i)))
                   userRequestTimes
            else (NoAction, userRequestTimes))
      else (NoAction, userRequestTimes))"

section \<open>Example inputs\<close>

definition request :: "string \<Rightarrow> string \<Rightarrow> Interaction" where
  "request iid uid = \<lparr>interactionId = iid, user = uid, kind = Command, textOption = None,
     gifOption = None, targetContent = []\<rparr>"

text \<open>The text \<open>hi\<close> and the GIF name \<open>jerma\<close>.\<close>

definition hi :: js_string where
  "hi = [0x68, 0x69]"

definition jerma :: js_string where
  "jerma = [0x6A, 0x65, 0x72, 0x6D, 0x61]"

text \<open>Seven requests of one user in a row: five are started and two wait.\<close>

definition burst :: "event list" where
  "burst = map (\<lambda>n. Submit (request (replicate n CHR ''i'') ''1'') hi jerma (int n)) [0..<7]"

text \<open>Five requests of five users: all are started.\<close>

definition five :: "event list" where
  "five = map (\<lambda>n. Submit (request (replicate n CHR ''i'') (replicate n CHR ''u'')) hi jerma (int n)) [0..<5]"

text \<open>A state whose queue holds a hundred items of user \<open>7\<close>.\<close>

definition crowded :: bot_state where
  "crowded = initial\<lparr>gifQueue := replicate 100 (queueItem (request ''q'' ''7'') hi jerma 0),
     processingCount := 5\<rparr>"

text \<open>
  A slash command whose text option is \<open>Hi! <b>\<close> followed by an emoji (a surrogate
  pair), and a context-menu command on a message with the content \<open><b>\<close>.
\<close>

definition slash :: Interaction where
  "slash = \<lparr>interactionId = ''900'', user = ''42'', kind = Command,
     textOption = Some [0x48, 0x69, 0x21, 0x20, 0x3C, 0x62, 0x3E, 0xD83D, 0xDE00],
     gifOption = None, targetContent = []\<rparr>"

definition menu :: Interaction where
  "menu = \<lparr>interactionId = ''901'', user = ''42'', kind = MessageContextMenu,
     textOption = None, gifOption = None, targetContent = [0x3C, 0x62, 0x3E]\<rparr>"

text \<open>The events at which a call of \<open>generateImage\<close> goes on or ends.\<close>

fun settlesGenerateImage :: "event \<Rightarrow> bool" where
  "settlesGenerateImage (PrepareDone j ok now) = True"
| "settlesGenerateImage (LaunchDone j res now) = True"
| "settlesGenerateImage (PageDone j ok now) = True"
| "settlesGenerateImage ev = False"

text \<open>The jobs that hold a page: \<open>getBrowserPage\<close> gave it to them and they still use it.\<close>

definition holders :: "bot_state \<Rightarrow> nat list" where
  "holders s = filter (\<lambda>j. case progress (jobs s ! j) of OnPage p \<Rightarrow> True | _ \<Rightarrow> False)
                 [0..<length (jobs s)]"

text \<open>
  One job, started at once, whose \<open>generateImage\<close> is launching the browser; then the
  same job after its deadline has fired, the failure message has been sent, and the
  launch and the capture of the page have succeeded all the same.
\<close>

definition late :: "event list" where
  "late = [Submit (request ''a'' ''1'') hi jerma 0, PrepareDone 0 True 5]"

definition lateDone :: "event list" where
  "lateDone = late @ [DeadlineFired 0, ErrorReplied 0 True, LaunchDone 0 (Some (1, 2)) 6,
     PageDone 0 True 7]"

text \<open>One job that holds the page.\<close>

definition held :: "event list" where
  "held = late @ [LaunchDone 0 (Some (1, 2)) 6]"

text \<open>
  Three jobs: the first holds the page, the second finds the browser in use, the third
  arrives after that.
\<close>

definition contention :: "event list" where
  "contention = [Submit (request ''a'' ''1'') hi jerma 0, Submit (request ''b'' ''2'') hi jerma 1,
     PrepareDone 0 True 5, LaunchDone 0 (Some (1, 2)) 6, PrepareDone 1 True 7,
     Submit (request ''c'' ''3'') hi jerma 8, PrepareDone 2 True 9]"

text \<open>
  Five jobs started at once and a sixth in the queue; the first job has composed its GIF
  and is sending it.
\<close>

definition rush :: "event list" where
  "rush = five @ [Submit (request ''n'' ''9'') hi jerma 9, PositionReplied True,
     PrepareDone 0 True 10, LaunchDone 0 (Some (1, 2)) 11, PageDone 0 True 12, GifDone 0 True]"

section \<open>The limits as a predicate on states\<close>

definition bounded :: "bot_state \<Rightarrow> bool" where
  "bounded s \<longleftrightarrow>
     length (gifQueue s) \<le> MAX_QUEUE_SIZE
     \<and> (\<forall>u. getUserQueueCount s u \<le> 2)
     \<and> processingCount s \<le> MAX_CONCURRENT_PROCESSING"

section \<open>What each operation leaves unchanged\<close>

lemma editReply_frame [simp]:
  "gifQueue (editReply i r s) = gifQueue s"
  "processingCount (editReply i r s) = processingCount s"
  "BROWSER_POOL (editReply i r s) = BROWSER_POOL s"
  "jobs (editReply i r s) = jobs s"
  "dispatchTimers (editReply i r s) = dispatchTimers s"
  "positionWaits (editReply i r s) = positionWaits s"
  "outputs (editReply i r s) = outputs s"
  "replies (editReply i r s) = replies s @ [(interactionId i, r)]"
  by (simp_all add: editReply_def)

lemma updJob_frame [simp]:
  "gifQueue (updJob j f s) = gifQueue s"
  "processingCount (updJob j f s) = processingCount s"
  "BROWSER_POOL (updJob j f s) = BROWSER_POOL s"
  "dispatchTimers (updJob j f s) = dispatchTimers s"
  "positionWaits (updJob j f s) = positionWaits s"
  "outputs (updJob j f s) = outputs s"
  "replies (updJob j f s) = replies s"
  "length (jobs (updJob j f s)) = length (jobs s)"
  by (simp_all add: updJob_def)

lemma updJob_nth:
  "j < length (jobs s) \<Longrightarrow> jobs (updJob j f s) ! k = (if k = j then f (jobs s ! j) else jobs s ! k)"
  by (simp add: updJob_def)

lemma updJob_items:
  "(\<And>jb. item (f jb) = item jb) \<Longrightarrow> map item (jobs (updJob j f s)) = map item (jobs s)"
proof -
  assume a: "\<And>jb. item (f jb) = item jb"
  have "(map item (jobs s))[j := item (jobs s ! j)] = map item (jobs s)"
    by (cases "j < length (jobs s)") (simp_all add: list_update_same_conv list_update_beyond)
  with a show ?thesis by (simp add: updJob_def map_update)
qed

lemma clearTimeout_frame [simp]:
  "gifQueue (clearTimeout j s) = gifQueue s"
  "processingCount (clearTimeout j s) = processingCount s"
  "BROWSER_POOL (clearTimeout j s) = BROWSER_POOL s"
  "dispatchTimers (clearTimeout j s) = dispatchTimers s"
  "positionWaits (clearTimeout j s) = positionWaits s"
  "outputs (clearTimeout j s) = outputs s"
  "replies (clearTimeout j s) = replies s"
  "length (jobs (clearTimeout j s)) = length (jobs s)"
  by (simp_all add: clearTimeout_def)

lemma clearTimeout_items [simp]: "map item (jobs (clearTimeout j s)) = map item (jobs s)"
  unfolding clearTimeout_def by (rule updJob_items) simp

lemma reject_frame [simp]:
  "gifQueue (reject j e s) = gifQueue s"
  "processingCount (reject j e s) = processingCount s"
  "BROWSER_POOL (reject j e s) = BROWSER_POOL s"
  "dispatchTimers (reject j e s) = dispatchTimers s"
  "positionWaits (reject j e s) = positionWaits s"
  "outputs (reject j e s) = outputs s"
  "length (jobs (reject j e s)) = length (jobs s)"
  by (simp_all add: reject_def)

lemma reject_items [simp]: "map item (jobs (reject j e s)) = map item (jobs s)"
  by (simp add: reject_def updJob_items)

lemma processGifThrows_frame [simp]:
  "gifQueue (processGifThrows j e s) = gifQueue s"
  "processingCount (processGifThrows j e s) = processingCount s"
  "BROWSER_POOL (processGifThrows j e s) = BROWSER_POOL s"
  "dispatchTimers (processGifThrows j e s) = dispatchTimers s"
  "positionWaits (processGifThrows j e s) = positionWaits s"
  "outputs (processGifThrows j e s) = outputs s"
  "length (jobs (processGifThrows j e s)) = length (jobs s)"
  by (simp_all add: processGifThrows_def)

lemma processGifThrows_items [simp]: "map item (jobs (processGifThrows j e s)) = map item (jobs s)"
  by (simp add: processGifThrows_def updJob_items)

lemma processGifWithTimeout_frame [simp]:
  "gifQueue (processGifWithTimeout og it s) = gifQueue s"
  "processingCount (processGifWithTimeout og it s) = processingCount s"
  "BROWSER_POOL (processGifWithTimeout og it s) = BROWSER_POOL s"
  "dispatchTimers (processGifWithTimeout og it s) = dispatchTimers s"
  "positionWaits (processGifWithTimeout og it s) = positionWaits s"
  "outputs (processGifWithTimeout og it s) = outputs s"
  "length (jobs (processGifWithTimeout og it s)) = Suc (length (jobs s))"
  "map item (jobs (processGifWithTimeout og it s)) = map item (jobs s) @ [it]"
  by (simp_all add: processGifWithTimeout_def Let_def split: option.splits)

lemma processNextInQueue_frame [simp]:
  "BROWSER_POOL (processNextInQueue s) = BROWSER_POOL s"
  "dispatchTimers (processNextInQueue s) = dispatchTimers s"
  "positionWaits (processNextInQueue s) = positionWaits s"
  "outputs (processNextInQueue s) = outputs s"
  by (simp_all add: processNextInQueue_def split: list.splits)

lemma finallyBlock_frame [simp]:
  "BROWSER_POOL (finallyBlock j s) = BROWSER_POOL s"
  "positionWaits (finallyBlock j s) = positionWaits s"
  "outputs (finallyBlock j s) = outputs s"
  by (simp_all add: finallyBlock_def Let_def split: origin.splits)

lemma resolve_frame [simp]:
  "BROWSER_POOL (resolve j s) = BROWSER_POOL s"
  "positionWaits (resolve j s) = positionWaits s"
  "outputs (resolve j s) = outputs s"
  by (simp_all add: resolve_def)

lemma processGifReturns_frame [simp]:
  "BROWSER_POOL (processGifReturns j s) = BROWSER_POOL s"
  "positionWaits (processGifReturns j s) = positionWaits s"
  "outputs (processGifReturns j s) = outputs s"
  by (simp_all add: processGifReturns_def)

section \<open>The rate limiter\<close>

lemma getTimes_record:
  "getTimes (recordRequest t u m) v = (if v = u then getTimes m u @ [t] else getTimes m v)"
  by (simp add: getTimes_def recordRequest_def)

lemma recent_cleanup:
  "s \<le> now \<Longrightarrow> filter (\<lambda>time. time > now - 60000) (getTimes (cleanup s m) v)
     = filter (\<lambda>time. time > now - 60000) (getTimes m v)"
proof (cases "m v")
  case None then show ?thesis by (simp add: getTimes_def cleanup_def)
next
  case (Some ts)
  assume le: "s \<le> now"
  have a: "filter (\<lambda>time. time > now - 60000) (filter (\<lambda>time. time > s - 60000) ts)
        = filter (\<lambda>time. time > now - 60000) ts"
    using le by (induction ts) auto
  show ?thesis
  proof (cases "filter (\<lambda>time. time > s - 60000) ts = []")
    case True
    with a have "filter (\<lambda>time. time > now - 60000) ts = []" by (metis filter.simps(1))
    with True Some show ?thesis by (simp add: getTimes_def cleanup_def)
  next
    case False
    with Some a show ?thesis by (simp add: getTimes_def cleanup_def)
  qed
qed

lemma recent_foldl:
  "\<forall>s \<in> set (sweepTimes history). s \<le> now \<Longrightarrow>
   filter (\<lambda>time. time > now - 60000) (getTimes (foldl applyRate m history) v)
     = filter (\<lambda>time. time > now - 60000) (getTimes m v)
       @ filter (\<lambda>time. time > now - 60000) (recordedTimes v history)"
proof (induction history arbitrary: m)
  case Nil then show ?case by simp
next
  case (Cons e history)
  show ?case
  proof (cases e)
    case (Recorded u t)
    with Cons show ?thesis by (simp add: getTimes_record)
  next
    case (Swept s)
    with Cons show ?thesis by (simp add: recent_cleanup)
  qed
qed

text \<open>
  C6: whatever requests were recorded and whatever sweeps ran, \<open>isRateLimited\<close> (the
  negation of the specification's \<open>allow\<close>) answers true for a caller if and only if at
  least three of the times recorded for that caller are less than 60000 ms before the
  current time. The only assumption is that the clock has not gone back behind a sweep
  that already ran.
\<close>

theorem rate_limited_iff:
  assumes "\<forall>s \<in> set (sweepTimes history). s \<le> now"
  shows "isRateLimited now (tableAfter history) caller
         \<longleftrightarrow> 3 \<le> length (filter (\<lambda>t. now - t < 60000) (recordedTimes caller history))"
proof -
  have eq: "(\<lambda>time::int. time > now - 60000) = (\<lambda>t. now - t < 60000)" by auto
  have "getTimes Map.empty caller = []" by (simp add: getTimes_def)
  with recent_foldl [OF assms, of Map.empty caller] show ?thesis
    by (simp add: isRateLimited_def tableAfter_def MAX_USER_REQUESTS_PER_MINUTE_def eq)
qed

theorem rate_limited_iff_witness:
  "isRateLimited 100000 (tableAfter [Recorded ''7'' 1000, Recorded ''7'' 50000, Swept 61500,
      Recorded ''8'' 62000, Recorded ''7'' 70000, Recorded ''7'' 99000]) ''7''
   \<and> \<not> isRateLimited 100000 (tableAfter [Recorded ''7'' 1000, Recorded ''7'' 40000, Swept 61500,
      Recorded ''8'' 62000, Recorded ''7'' 70000, Recorded ''7'' 99000]) ''7''"
  using rate_limited_iff [of "[Recorded ''7'' 1000, Recorded ''7'' 50000, Swept 61500,
      Recorded ''8'' 62000, Recorded ''7'' 70000, Recorded ''7'' 99000]" 100000 "''7''"]
     rate_limited_iff [of "[Recorded ''7'' 1000, Recorded ''7'' 40000, Swept 61500,
      Recorded ''8'' 62000, Recorded ''7'' 70000, Recorded ''7'' 99000]" 100000 "''7''"]
  by simp

section \<open>The limits hold in every reachable state\<close>

lemma bounded_same:
  "bounded s \<Longrightarrow> gifQueue t = gifQueue s \<Longrightarrow> processingCount t \<le> processingCount s \<Longrightarrow> bounded t"
  by (auto simp: bounded_def getUserQueueCount_def)

lemma generateImageFails_frame [simp]:
  "gifQueue (generateImageFails j c now s) = gifQueue s"
  "processingCount (generateImageFails j c now s) = processingCount s"
  "outputs (generateImageFails j c now s) = outputs s"
  "length (jobs (generateImageFails j c now s)) = length (jobs s)"
  by (simp_all add: generateImageFails_def)

lemma bounded_processNextInQueue: "bounded s \<Longrightarrow> bounded (processNextInQueue s)"
proof -
  assume b: "bounded s"
  show ?thesis
  proof (cases "gifQueue s = [] \<or> \<not> canProcessMore s")
    case True
    with b show ?thesis by (simp add: processNextInQueue_def)
  next
    case False
    then obtain it rest where q: "gifQueue s = it # rest" by (cases "gifQueue s") auto
    from False have c: "processingCount s < MAX_CONCURRENT_PROCESSING" by (simp add: canProcessMore_def)
    have "\<And>u. length (filter (\<lambda>x. userId x = u) rest) \<le> length (filter (\<lambda>x. userId x = u) (it # rest))"
      by simp
    with b q c have "bounded (s\<lparr>gifQueue := rest, processingCount := processingCount s + 1\<rparr>)"
      unfolding bounded_def getUserQueueCount_def
      by (auto intro: order_trans)
    then have "bounded (processGifWithTimeout FromQueue it (s\<lparr>gifQueue := rest, processingCount := processingCount s + 1\<rparr>))"
      by (rule bounded_same) simp_all
    with False q show ?thesis by (simp add: processNextInQueue_def)
  qed
qed

lemma bounded_finallyBlock: "bounded s \<Longrightarrow> bounded (finallyBlock j s)"
proof -
  assume b: "bounded s"
  let ?s1 = "updJob j (\<lambda>jb. jb\<lparr>handler := Completed\<rparr>) (s\<lparr>processingCount := processingCount s - 1\<rparr>)"
  from b have b1: "bounded ?s1" by (rule bounded_same) simp_all
  show ?thesis
  proof (cases "origin (jobs s ! j)")
    case FastPath
    with bounded_processNextInQueue [OF b1] show ?thesis by (simp add: finallyBlock_def Let_def)
  next
    case FromQueue
    have "bounded (?s1\<lparr>dispatchTimers := dispatchTimers ?s1 @ [100]\<rparr>)"
      using b1 by (rule bounded_same) simp_all
    with FromQueue show ?thesis by (simp add: finallyBlock_def Let_def)
  qed
qed

lemma bounded_resolve: "bounded s \<Longrightarrow> bounded (resolve j s)"
proof -
  assume b: "bounded s"
  have "bounded (updJob j (\<lambda>jb. jb\<lparr>promise := Resolved\<rparr>) s)" using b by (rule bounded_same) simp_all
  then show ?thesis using b by (simp add: resolve_def bounded_finallyBlock)
qed

lemma bounded_processGifReturns: "bounded s \<Longrightarrow> bounded (processGifReturns j s)"
proof -
  assume b: "bounded s"
  have "bounded (clearTimeout j (updJob j (\<lambda>jb. jb\<lparr>progress := Returned\<rparr>) s))"
    using b by (rule bounded_same) simp_all
  then show ?thesis by (simp add: processGifReturns_def bounded_resolve)
qed

lemma bounded_handleNewGIFWithGif: "bounded s \<Longrightarrow> bounded (handleNewGIFWithGif i str g now s)"
proof -
  assume b: "bounded s"
  let ?it = "queueItem i str g now"
  show ?thesis
  proof (cases "canProcessMore s \<and> gifQueue s = []")
    case True
    then have "bounded (s\<lparr>processingCount := processingCount s + 1\<rparr>)"
      using b by (auto simp: bounded_def canProcessMore_def getUserQueueCount_def)
    then have "bounded (processGifWithTimeout FastPath ?it (s\<lparr>processingCount := processingCount s + 1\<rparr>))"
      by (rule bounded_same) simp_all
    with True show ?thesis by (simp add: handleNewGIFWithGif_def Let_def)
  next
    case False
    show ?thesis
    proof (cases "isQueueFull s \<or> getUserQueueCount s (userId ?it) \<ge> 2")
      case True
      then have a: "addToQueue ?it s = (False, s)" by (auto simp: addToQueue_def)
      have "bounded (editReply i (if isQueueFull s then QueueIsFull else TooManyInQueue) s)"
        using b by (rule bounded_same) simp_all
      with False a show ?thesis by (auto simp add: handleNewGIFWithGif_def Let_def)
    next
      case F: False
      let ?s1 = "s\<lparr>gifQueue := gifQueue s @ [?it]\<rparr>"
      from F have a: "addToQueue ?it s = (True, ?s1)" by (auto simp: addToQueue_def)
      from F b have b1: "bounded ?s1"
        by (auto simp: bounded_def isQueueFull_def getUserQueueCount_def)
      let ?r = "InQueue (getQueuePosition ?s1 (user i)) (int (length (gifQueue ?s1)) + processingCount ?s1)"
      have "bounded ((editReply i ?r ?s1)\<lparr>positionWaits := positionWaits ?s1 + 1\<rparr>)"
        using b1 by (rule bounded_same) simp_all
      with False a show ?thesis by (auto simp add: handleNewGIFWithGif_def Let_def)
    qed
  qed
qed


lemma bounded_step: "bounded s \<Longrightarrow> bounded (step s e)"
proof (cases e)
  case (Submit i str g now)
  assume "bounded s"
  with Submit show ?thesis by (simp add: bounded_handleNewGIFWithGif)
next
  case (PositionReplied ok)
  assume b: "bounded s"
  then have "bounded (s\<lparr>positionWaits := positionWaits s - 1\<rparr>)" by (rule bounded_same) simp_all
  with b PositionReplied show ?thesis by (simp add: Let_def bounded_processNextInQueue)
next
  case DispatchTimerFired
  assume b: "bounded s"
  have "\<And>rest. bounded (s\<lparr>dispatchTimers := rest\<rparr>)" using b by (rule bounded_same) simp_all
  with b DispatchTimerFired show ?thesis by (simp add: bounded_processNextInQueue split: list.splits)
next
  case (DeadlineFired j)
  assume b: "bounded s"
  have "bounded (reject j ProcessingTimeout (updJob j (\<lambda>jb. jb\<lparr>timeoutId := Fired\<rparr>) s))"
    using b by (rule bounded_same) simp_all
  with b DeadlineFired show ?thesis by simp
next
  case (PrepareDone j ok now)
  assume b: "bounded s"
  have "gifQueue (step s e) = gifQueue s \<and> processingCount (step s e) = processingCount s"
    using PrepareDone by (simp split: prod.splits acquire.splits)
  with b show ?thesis by (simp add: bounded_same)
next
  case (LaunchDone j res now)
  assume b: "bounded s"
  have "gifQueue (step s e) = gifQueue s \<and> processingCount (step s e) = processingCount s"
    using LaunchDone by (simp split: progress.splits option.splits prod.splits)
  with b show ?thesis by (simp add: bounded_same)
next
  case (PageDone j ok now)
  assume b: "bounded s"
  have "gifQueue (step s e) = gifQueue s \<and> processingCount (step s e) = processingCount s"
    using PageDone by (simp split: progress.splits)
  with b show ?thesis by (simp add: bounded_same)
next
  case (GifDone j ok)
  assume b: "bounded s"
  have "gifQueue (step s e) = gifQueue s \<and> processingCount (step s e) = processingCount s"
    using GifDone by simp
  with b show ?thesis by (simp add: bounded_same)
next
  case (FilesReplied j ok)
  assume b: "bounded s"
  have "bounded (processGifThrows j EditReplyFailed s)" using b by (rule bounded_same) simp_all
  with b FilesReplied show ?thesis by (simp add: bounded_processGifReturns)
next
  case (ErrorReplied j ok)
  assume "bounded s"
  with ErrorReplied show ?thesis by (simp add: bounded_finallyBlock)
qed

lemma bounded_initial: "bounded initial"
  by (simp add: bounded_def initial_def getUserQueueCount_def MAX_CONCURRENT_PROCESSING_def)

lemma bounded_run: "bounded (run evs)"
  unfolding run_def
  by (induction evs rule: rev_induct) (simp_all add: bounded_initial bounded_step)

text \<open>
  C3: after every sequence of events (submissions, completions, timers) the queue holds at
  most 100 items, every caller has at most 2 items in it, and the counter of running jobs
  is at most 5.
\<close>

theorem limits_hold:
  "length (gifQueue (run evs)) \<le> 100
   \<and> getUserQueueCount (run evs) u \<le> 2
   \<and> processingCount (run evs) \<le> 5"
  using bounded_run [of evs]
  by (simp add: bounded_def MAX_QUEUE_SIZE_def MAX_CONCURRENT_PROCESSING_def)

lemma burst_state:
  "processingCount (run burst) = 5 \<and> getUserQueueCount (run burst) ''1'' = 2
   \<and> length (gifQueue (run burst)) = 2"
  by code_simp

theorem limits_hold_witness:
  "length (gifQueue (run burst)) \<le> 100
   \<and> getUserQueueCount (run burst) ''1'' \<le> 2
   \<and> processingCount (run burst) \<le> 5
   \<and> getUserQueueCount (run burst) ''1'' = 2
   \<and> processingCount (run burst) = 5"
  using limits_hold [of burst "''1''"] burst_state by simp

section \<open>Admission\<close>

lemma processGifWithTimeout_rejected:
  "generateImage_checks (text' it) = Some e \<Longrightarrow>
   jobs (processGifWithTimeout og it s) =
     jobs s @ [\<lparr>item = it, origin = og, progress = Threw e, timeoutId = Cleared,
                promise = Rejected e, handler = SendingError\<rparr>]"
  by (simp add: processGifWithTimeout_def Let_def processGifThrows_def reject_def clearTimeout_def
        updJob_def editReply_def nth_append)

lemma processGifWithTimeout_accepted:
  "generateImage_checks (text' it) = None \<Longrightarrow>
   processGifWithTimeout og it s =
     s\<lparr>jobs := jobs s @ [\<lparr>item = it, origin = og, progress = Preparing, timeoutId = Armed,
                promise = Pending, handler = AwaitingGuard\<rparr>]\<rparr>"
  by (simp add: processGifWithTimeout_def Let_def)

lemma processGifWithTimeout_replies:
  "replies (processGifWithTimeout og it s) =
     (if generateImage_checks (text' it) = None then replies s
      else replies s @ [(interactionId (interaction it), SomethingWentWrong)])"
  by (auto simp: processGifWithTimeout_def Let_def processGifThrows_def reject_def clearTimeout_def
        updJob_def nth_append split: option.splits)

lemma handleNewGIFWithGif_fast:
  "canProcessMore s \<Longrightarrow> gifQueue s = [] \<Longrightarrow>
   handleNewGIFWithGif i str g now s =
     processGifWithTimeout FastPath (queueItem i str g now) (s\<lparr>processingCount := processingCount s + 1\<rparr>)"
  by (simp add: handleNewGIFWithGif_def Let_def)

lemma handleNewGIFWithGif_full:
  "\<not> (canProcessMore s \<and> gifQueue s = []) \<Longrightarrow> isQueueFull s \<Longrightarrow>
   handleNewGIFWithGif i str g now s = editReply i QueueIsFull s"
  by (auto simp add: handleNewGIFWithGif_def Let_def addToQueue_def)

lemma handleNewGIFWithGif_user:
  "\<not> (canProcessMore s \<and> gifQueue s = []) \<Longrightarrow> \<not> isQueueFull s \<Longrightarrow> 2 \<le> getUserQueueCount s (user i) \<Longrightarrow>
   handleNewGIFWithGif i str g now s = editReply i TooManyInQueue s"
  by (auto simp add: handleNewGIFWithGif_def Let_def addToQueue_def queueItem_def)

lemma handleNewGIFWithGif_queued:
  "\<not> (canProcessMore s \<and> gifQueue s = []) \<Longrightarrow> \<not> isQueueFull s \<Longrightarrow> getUserQueueCount s (user i) < 2 \<Longrightarrow>
   handleNewGIFWithGif i str g now s =
     (editReply i (InQueue (getQueuePosition (s\<lparr>gifQueue := gifQueue s @ [queueItem i str g now]\<rparr>) (user i))
                     (int (length (gifQueue s)) + 1 + processingCount s))
        (s\<lparr>gifQueue := gifQueue s @ [queueItem i str g now]\<rparr>))
     \<lparr>positionWaits := positionWaits s + 1\<rparr>"
  by (auto simp add: handleNewGIFWithGif_def Let_def addToQueue_def queueItem_def)

text \<open>
  C5: the reasons for a rejection are checked in a fixed order. With 100 items in the
  queue the answer is that the queue is full, whatever the caller has queued; the answer
  that the caller has too many requests is given exactly when the queue is not full and
  the caller has at least 2 items in it; a request that is admitted is appended at the
  tail of the queue.
\<close>

theorem admission_order:
  "(length (gifQueue s) \<ge> 100 \<longrightarrow>
      replies (handleNewGIFWithGif i str g now s) = replies s @ [(interactionId i, QueueIsFull)]
      \<and> gifQueue (handleNewGIFWithGif i str g now s) = gifQueue s
      \<and> jobs (handleNewGIFWithGif i str g now s) = jobs s)
   \<and> (replies (handleNewGIFWithGif i str g now s) = replies s @ [(interactionId i, TooManyInQueue)]
        \<longleftrightarrow> length (gifQueue s) < 100 \<and> getUserQueueCount s (user i) \<ge> 2)
   \<and> (\<not> (canProcessMore s \<and> gifQueue s = []) \<and> length (gifQueue s) < 100 \<and> getUserQueueCount s (user i) < 2 \<longrightarrow>
        gifQueue (handleNewGIFWithGif i str g now s) = gifQueue s @ [queueItem i str g now]
        \<and> jobs (handleNewGIFWithGif i str g now s) = jobs s)"
proof -
  let ?s' = "handleNewGIFWithGif i str g now s"
  have full: "isQueueFull s \<longleftrightarrow> length (gifQueue s) \<ge> 100" by (simp add: isQueueFull_def MAX_QUEUE_SIZE_def)
  have A: "length (gifQueue s) \<ge> 100 \<longrightarrow>
      replies ?s' = replies s @ [(interactionId i, QueueIsFull)] \<and> gifQueue ?s' = gifQueue s \<and> jobs ?s' = jobs s"
  proof
    assume l: "length (gifQueue s) \<ge> 100"
    then have "gifQueue s \<noteq> []" by auto
    then have "\<not> (canProcessMore s \<and> gifQueue s = [])" by simp
    from handleNewGIFWithGif_full [OF this] l full
    show "replies ?s' = replies s @ [(interactionId i, QueueIsFull)] \<and> gifQueue ?s' = gifQueue s \<and> jobs ?s' = jobs s"
      by simp
  qed
  have B1: "length (gifQueue s) < 100 \<and> getUserQueueCount s (user i) \<ge> 2
            \<Longrightarrow> replies ?s' = replies s @ [(interactionId i, TooManyInQueue)]"
  proof -
    assume h: "length (gifQueue s) < 100 \<and> getUserQueueCount s (user i) \<ge> 2"
    then have "gifQueue s \<noteq> []" by (auto simp: getUserQueueCount_def)
    then have "\<not> (canProcessMore s \<and> gifQueue s = [])" by simp
    from handleNewGIFWithGif_user [OF this] h full show ?thesis by simp
  qed
  have B2: "replies ?s' = replies s @ [(interactionId i, TooManyInQueue)]
            \<Longrightarrow> length (gifQueue s) < 100 \<and> getUserQueueCount s (user i) \<ge> 2"
  proof -
    assume r: "replies ?s' = replies s @ [(interactionId i, TooManyInQueue)]"
    show ?thesis
    proof (cases "canProcessMore s \<and> gifQueue s = []")
      case True
      with r show ?thesis
        by (simp add: handleNewGIFWithGif_fast processGifWithTimeout_replies split: if_splits)
    next
      case False
      show ?thesis
      proof (cases "isQueueFull s")
        case True
        with r handleNewGIFWithGif_full [OF False True] show ?thesis by simp
      next
        case nf: False
        show ?thesis
        proof (cases "2 \<le> getUserQueueCount s (user i)")
          case True
          with nf full show ?thesis by simp
        next
          case F3: False
          then have "getUserQueueCount s (user i) < 2" by simp
          from handleNewGIFWithGif_queued [OF False nf this] r show ?thesis by simp
        qed
      qed
    qed
  qed
  have C: "\<not> (canProcessMore s \<and> gifQueue s = []) \<and> length (gifQueue s) < 100 \<and> getUserQueueCount s (user i) < 2 \<longrightarrow>
        gifQueue ?s' = gifQueue s @ [queueItem i str g now] \<and> jobs ?s' = jobs s"
  proof
    assume h: "\<not> (canProcessMore s \<and> gifQueue s = []) \<and> length (gifQueue s) < 100 \<and> getUserQueueCount s (user i) < 2"
    then have "\<not> isQueueFull s" using full by simp
    from handleNewGIFWithGif_queued [OF _ this] h
    show "gifQueue ?s' = gifQueue s @ [queueItem i str g now] \<and> jobs ?s' = jobs s" by simp
  qed
  from A B1 B2 C show ?thesis by blast
qed

lemma five_state: "gifQueue (run five) = [] \<and> processingCount (run five) = 5"
  by code_simp

theorem admission_order_witness:
  "replies (handleNewGIFWithGif (request ''n'' ''7'') hi jerma 9 crowded)
     = replies crowded @ [(''n'', QueueIsFull)]
   \<and> replies (handleNewGIFWithGif (request ''n'' ''1'') hi jerma 9 (run burst))
     = replies (run burst) @ [(''n'', TooManyInQueue)]
   \<and> gifQueue (handleNewGIFWithGif (request ''n'' ''1'') hi jerma 9 (run five))
     = [queueItem (request ''n'' ''1'') hi jerma 9]"
proof -
  have a: "length (gifQueue crowded) \<ge> 100" by (simp add: crowded_def initial_def)
  have b: "length (gifQueue (run burst)) < 100 \<and> getUserQueueCount (run burst) (user (request ''n'' ''1'')) \<ge> 2"
    using burst_state by (simp add: request_def)
  have c: "\<not> (canProcessMore (run five) \<and> gifQueue (run five) = []) \<and> length (gifQueue (run five)) < 100
           \<and> getUserQueueCount (run five) (user (request ''n'' ''1'')) < 2"
    using five_state by (simp add: canProcessMore_def MAX_CONCURRENT_PROCESSING_def getUserQueueCount_def)
  have i: "interactionId (request ''n'' ''7'') = ''n''" "interactionId (request ''n'' ''1'') = ''n''"
    by (simp_all add: request_def)
  from a admission_order [of crowded "request ''n'' ''7''" hi jerma 9]
  have 1: "replies (handleNewGIFWithGif (request ''n'' ''7'') hi jerma 9 crowded)
     = replies crowded @ [(''n'', QueueIsFull)]" using i by simp
  from b admission_order [of "run burst" "request ''n'' ''1''" hi jerma 9]
  have 2: "replies (handleNewGIFWithGif (request ''n'' ''1'') hi jerma 9 (run burst))
     = replies (run burst) @ [(''n'', TooManyInQueue)]" using i by simp
  from c admission_order [of "run five" "request ''n'' ''1''" hi jerma 9]
  have 3: "gifQueue (handleNewGIFWithGif (request ''n'' ''1'') hi jerma 9 (run five))
     = [queueItem (request ''n'' ''1'') hi jerma 9]" using five_state by simp
  from 1 2 3 show ?thesis by simp
qed

text \<open>
  C7: a new job is dispatched at once, and the queue left alone, if and only if the queue
  is empty and fewer than 5 jobs are counted as running. Dispatched means what
  \<open>handleNewGIFWithGif\<close> does on that branch: the counter goes up by one and
  \<open>processGifWithTimeout\<close> starts the job, with its timer armed, its promise pending and
  \<open>generateImage\<close> under way (a job whose text fails the checks of \<open>generateImage\<close> is
  started and over in the same turn, and its caller is sent the failure message).
  Otherwise no job is started and the counter stays. With 5 running and an empty queue
  the job is put in the queue, its caller is told position 1 (of 6), and the call of
  \<open>processNextInQueue\<close> that follows does not start it.
\<close>

theorem fast_path_iff:
  "((map item (jobs (handleNewGIFWithGif i str g now s)) = map item (jobs s) @ [queueItem i str g now]
      \<and> gifQueue (handleNewGIFWithGif i str g now s) = gifQueue s)
     \<longleftrightarrow> gifQueue s = [] \<and> processingCount s < 5)
   \<and> (gifQueue s = [] \<and> processingCount s = 5 \<longrightarrow>
        gifQueue (handleNewGIFWithGif i str g now s) = [queueItem i str g now]
        \<and> getQueuePosition (handleNewGIFWithGif i str g now s) (user i) = 1
        \<and> replies (handleNewGIFWithGif i str g now s) = replies s @ [(interactionId i, InQueue 1 6)]
        \<and> jobs (handleNewGIFWithGif i str g now s) = jobs s
        \<and> processingCount (handleNewGIFWithGif i str g now s) = 5
        \<and> jobs (step (handleNewGIFWithGif i str g now s) (PositionReplied ok)) = jobs s
        \<and> gifQueue (step (handleNewGIFWithGif i str g now s) (PositionReplied ok)) = [queueItem i str g now])
   \<and> (gifQueue s = [] \<and> processingCount s < 5 \<longrightarrow>
        processingCount (handleNewGIFWithGif i str g now s) = processingCount s + 1
        \<and> jobs (handleNewGIFWithGif i str g now s)
            = jobs s @ [case generateImage_checks str of
                          None \<Rightarrow> \<lparr>item = queueItem i str g now, origin = FastPath,
                                     progress = Preparing, timeoutId = Armed, promise = Pending,
                                     handler = AwaitingGuard\<rparr>
                        | Some e \<Rightarrow> \<lparr>item = queueItem i str g now, origin = FastPath,
                                      progress = Threw e, timeoutId = Cleared, promise = Rejected e,
                                      handler = SendingError\<rparr>]
        \<and> replies (handleNewGIFWithGif i str g now s)
            = (if generateImage_checks str = None then replies s
               else replies s @ [(interactionId i, SomethingWentWrong)])
        \<and> positionWaits (handleNewGIFWithGif i str g now s) = positionWaits s
        \<and> dispatchTimers (handleNewGIFWithGif i str g now s) = dispatchTimers s
        \<and> BROWSER_POOL (handleNewGIFWithGif i str g now s) = BROWSER_POOL s)
   \<and> (\<not> (gifQueue s = [] \<and> processingCount s < 5) \<longrightarrow>
        jobs (handleNewGIFWithGif i str g now s) = jobs s
        \<and> processingCount (handleNewGIFWithGif i str g now s) = processingCount s)"
proof -
  let ?s' = "handleNewGIFWithGif i str g now s"
  let ?it = "queueItem i str g now"
  have can: "canProcessMore s \<longleftrightarrow> processingCount s < 5"
    by (simp add: canProcessMore_def MAX_CONCURRENT_PROCESSING_def)
  have tx: "text' ?it = str" "interactionId (interaction ?it) = interactionId i"
    by (simp_all add: queueItem_def)
  have A1: "gifQueue s = [] \<and> processingCount s < 5 \<Longrightarrow>
            map item (jobs ?s') = map item (jobs s) @ [?it] \<and> gifQueue ?s' = gifQueue s"
    using can by (simp add: handleNewGIFWithGif_fast)
  have slow: "\<not> (canProcessMore s \<and> gifQueue s = []) \<Longrightarrow>
              jobs ?s' = jobs s \<and> processingCount ?s' = processingCount s"
  proof -
    assume n: "\<not> (canProcessMore s \<and> gifQueue s = [])"
    show ?thesis
    proof (cases "isQueueFull s")
      case True
      from handleNewGIFWithGif_full [OF n True] show ?thesis by simp
    next
      case nf: False
      show ?thesis
      proof (cases "2 \<le> getUserQueueCount s (user i)")
        case True
        from handleNewGIFWithGif_user [OF n nf True] show ?thesis by simp
      next
        case False
        then have "getUserQueueCount s (user i) < 2" by simp
        from handleNewGIFWithGif_queued [OF n nf this] show ?thesis by simp
      qed
    qed
  qed
  have A2: "map item (jobs ?s') = map item (jobs s) @ [?it] \<Longrightarrow> gifQueue s = [] \<and> processingCount s < 5"
  proof (rule ccontr)
    assume m: "map item (jobs ?s') = map item (jobs s) @ [?it]"
    assume "\<not> (gifQueue s = [] \<and> processingCount s < 5)"
    then have "\<not> (canProcessMore s \<and> gifQueue s = [])" using can by blast
    from slow [OF this] m show False by simp
  qed
  have B: "gifQueue s = [] \<and> processingCount s = 5 \<longrightarrow>
        gifQueue ?s' = [?it] \<and> getQueuePosition ?s' (user i) = 1
        \<and> replies ?s' = replies s @ [(interactionId i, InQueue 1 6)]
        \<and> jobs ?s' = jobs s \<and> processingCount ?s' = 5
        \<and> jobs (step ?s' (PositionReplied ok)) = jobs s
        \<and> gifQueue (step ?s' (PositionReplied ok)) = [?it]"
  proof
    assume h: "gifQueue s = [] \<and> processingCount s = 5"
    then have n: "\<not> (canProcessMore s \<and> gifQueue s = [])" using can by simp
    from h have nf: "\<not> isQueueFull s" by (simp add: isQueueFull_def MAX_QUEUE_SIZE_def)
    from h have u: "getUserQueueCount s (user i) < 2" by (simp add: getUserQueueCount_def)
    have pos: "getQueuePosition (s\<lparr>gifQueue := gifQueue s @ [?it]\<rparr>) (user i) = 1"
      using h by (simp add: getQueuePosition_def queueItem_def)
    note eq = handleNewGIFWithGif_queued [OF n nf u]
    have q: "gifQueue ?s' = [?it]" using eq h by simp
    have p: "getQueuePosition ?s' (user i) = 1"
      using q by (simp add: getQueuePosition_def queueItem_def)
    have r: "replies ?s' = replies s @ [(interactionId i, InQueue 1 6)]"
      using eq h pos by simp
    have j: "jobs ?s' = jobs s" using eq by simp
    have c: "processingCount ?s' = 5" using eq h by simp
    have w: "positionWaits ?s' \<noteq> 0" using eq by simp
    have "processNextInQueue (?s'\<lparr>positionWaits := positionWaits ?s' - 1\<rparr>) = ?s'\<lparr>positionWaits := positionWaits ?s' - 1\<rparr>"
      using c by (simp add: processNextInQueue_def canProcessMore_def MAX_CONCURRENT_PROCESSING_def)
    then have st: "step ?s' (PositionReplied ok) = ?s'\<lparr>positionWaits := positionWaits ?s' - 1\<rparr>"
      using w by (simp add: Let_def)
    show "gifQueue ?s' = [?it] \<and> getQueuePosition ?s' (user i) = 1
        \<and> replies ?s' = replies s @ [(interactionId i, InQueue 1 6)]
        \<and> jobs ?s' = jobs s \<and> processingCount ?s' = 5
        \<and> jobs (step ?s' (PositionReplied ok)) = jobs s
        \<and> gifQueue (step ?s' (PositionReplied ok)) = [?it]"
      using q p r j c st by simp
  qed
  have C: "gifQueue s = [] \<and> processingCount s < 5 \<longrightarrow>
        processingCount ?s' = processingCount s + 1
        \<and> jobs ?s'
            = jobs s @ [case generateImage_checks str of
                          None \<Rightarrow> \<lparr>item = ?it, origin = FastPath,
                                     progress = Preparing, timeoutId = Armed, promise = Pending,
                                     handler = AwaitingGuard\<rparr>
                        | Some e \<Rightarrow> \<lparr>item = ?it, origin = FastPath,
                                      progress = Threw e, timeoutId = Cleared, promise = Rejected e,
                                      handler = SendingError\<rparr>]
        \<and> replies ?s'
            = (if generateImage_checks str = None then replies s
               else replies s @ [(interactionId i, SomethingWentWrong)])
        \<and> positionWaits ?s' = positionWaits s
        \<and> dispatchTimers ?s' = dispatchTimers s
        \<and> BROWSER_POOL ?s' = BROWSER_POOL s"
  proof
    assume h: "gifQueue s = [] \<and> processingCount s < 5"
    let ?s1 = "s\<lparr>processingCount := processingCount s + 1\<rparr>"
    have eq: "?s' = processGifWithTimeout FastPath ?it ?s1"
      using h can by (simp add: handleNewGIFWithGif_fast)
    have c: "processingCount ?s' = processingCount s + 1" unfolding eq by simp
    have f: "positionWaits ?s' = positionWaits s" "dispatchTimers ?s' = dispatchTimers s"
      "BROWSER_POOL ?s' = BROWSER_POOL s"
      unfolding eq by simp_all
    have r: "replies ?s' = (if generateImage_checks str = None then replies s
               else replies s @ [(interactionId i, SomethingWentWrong)])"
      unfolding eq by (simp add: processGifWithTimeout_replies tx)
    have j: "jobs ?s' = jobs s @ [case generateImage_checks str of
                          None \<Rightarrow> \<lparr>item = ?it, origin = FastPath,
                                     progress = Preparing, timeoutId = Armed, promise = Pending,
                                     handler = AwaitingGuard\<rparr>
                        | Some e \<Rightarrow> \<lparr>item = ?it, origin = FastPath,
                                      progress = Threw e, timeoutId = Cleared, promise = Rejected e,
                                      handler = SendingError\<rparr>]"
    proof (cases "generateImage_checks str")
      case None
      then have "generateImage_checks (text' ?it) = None" by (simp add: tx)
      from processGifWithTimeout_accepted [OF this, of FastPath ?s1] None show ?thesis
        unfolding eq by simp
    next
      case (Some e)
      then have "generateImage_checks (text' ?it) = Some e" by (simp add: tx)
      from processGifWithTimeout_rejected [OF this, of FastPath ?s1] Some show ?thesis
        unfolding eq by simp
    qed
    from c j r f show "processingCount ?s' = processingCount s + 1
        \<and> jobs ?s'
            = jobs s @ [case generateImage_checks str of
                          None \<Rightarrow> \<lparr>item = ?it, origin = FastPath,
                                     progress = Preparing, timeoutId = Armed, promise = Pending,
                                     handler = AwaitingGuard\<rparr>
                        | Some e \<Rightarrow> \<lparr>item = ?it, origin = FastPath,
                                      progress = Threw e, timeoutId = Cleared, promise = Rejected e,
                                      handler = SendingError\<rparr>]
        \<and> replies ?s'
            = (if generateImage_checks str = None then replies s
               else replies s @ [(interactionId i, SomethingWentWrong)])
        \<and> positionWaits ?s' = positionWaits s
        \<and> dispatchTimers ?s' = dispatchTimers s
        \<and> BROWSER_POOL ?s' = BROWSER_POOL s" by blast
  qed
  have D: "\<not> (gifQueue s = [] \<and> processingCount s < 5) \<longrightarrow>
        jobs ?s' = jobs s \<and> processingCount ?s' = processingCount s"
  proof
    assume "\<not> (gifQueue s = [] \<and> processingCount s < 5)"
    then have "\<not> (canProcessMore s \<and> gifQueue s = [])" using can by blast
    from slow [OF this] show "jobs ?s' = jobs s \<and> processingCount ?s' = processingCount s" .
  qed
  from A1 A2 B C D show ?thesis by blast
qed

theorem fast_path_iff_witness:
  "gifQueue (handleNewGIFWithGif (request ''n'' ''9'') hi jerma 9 (run five))
     = [queueItem (request ''n'' ''9'') hi jerma 9]
   \<and> replies (handleNewGIFWithGif (request ''n'' ''9'') hi jerma 9 (run five))
     = replies (run five) @ [(''n'', InQueue 1 6)]
   \<and> jobs (handleNewGIFWithGif (request ''n'' ''9'') hi jerma 9 (run five)) = jobs (run five)
   \<and> processingCount (handleNewGIFWithGif (request ''n'' ''9'') hi jerma 9 (run five)) = 5
   \<and> map item (jobs (handleNewGIFWithGif (request ''n'' ''9'') hi jerma 9 initial))
     = [queueItem (request ''n'' ''9'') hi jerma 9]
   \<and> gifQueue (handleNewGIFWithGif (request ''n'' ''9'') hi jerma 9 initial) = []
   \<and> processingCount (handleNewGIFWithGif (request ''n'' ''9'') hi jerma 9 initial) = 1
   \<and> jobs (handleNewGIFWithGif (request ''n'' ''9'') hi jerma 9 initial)
     = [\<lparr>item = queueItem (request ''n'' ''9'') hi jerma 9, origin = FastPath,
          progress = Preparing, timeoutId = Armed, promise = Pending, handler = AwaitingGuard\<rparr>]
   \<and> replies (handleNewGIFWithGif (request ''n'' ''9'') hi jerma 9 initial) = []"
proof -
  have i: "interactionId (request ''n'' ''9'') = ''n''" by (simp add: request_def)
  have z: "gifQueue initial = [] \<and> processingCount initial < 5 \<and> jobs initial = []
           \<and> processingCount initial = 0 \<and> replies initial = []"
    by (simp add: initial_def)
  have k: "generateImage_checks hi = None"
    by (simp add: generateImage_checks_def hi_def trim_def isWhiteSpace_def)
  from five_state fast_path_iff [of "request ''n'' ''9''" hi jerma 9 "run five"] i
  have 1: "gifQueue (handleNewGIFWithGif (request ''n'' ''9'') hi jerma 9 (run five))
     = [queueItem (request ''n'' ''9'') hi jerma 9]
   \<and> replies (handleNewGIFWithGif (request ''n'' ''9'') hi jerma 9 (run five))
     = replies (run five) @ [(''n'', InQueue 1 6)]
   \<and> jobs (handleNewGIFWithGif (request ''n'' ''9'') hi jerma 9 (run five)) = jobs (run five)
   \<and> processingCount (handleNewGIFWithGif (request ''n'' ''9'') hi jerma 9 (run five)) = 5"
    by simp
  from z k fast_path_iff [of "request ''n'' ''9''" hi jerma 9 initial]
  have 2: "map item (jobs (handleNewGIFWithGif (request ''n'' ''9'') hi jerma 9 initial))
     = [queueItem (request ''n'' ''9'') hi jerma 9]
   \<and> gifQueue (handleNewGIFWithGif (request ''n'' ''9'') hi jerma 9 initial) = []
   \<and> processingCount (handleNewGIFWithGif (request ''n'' ''9'') hi jerma 9 initial) = 1
   \<and> jobs (handleNewGIFWithGif (request ''n'' ''9'') hi jerma 9 initial)
     = [\<lparr>item = queueItem (request ''n'' ''9'') hi jerma 9, origin = FastPath,
          progress = Preparing, timeoutId = Armed, promise = Pending, handler = AwaitingGuard\<rparr>]
   \<and> replies (handleNewGIFWithGif (request ''n'' ''9'') hi jerma 9 initial) = []"
    by simp
  from 1 2 show ?thesis by simp
qed

section \<open>Slash commands are sanitized\<close>

lemma sanitizeInput_filter:
  "sanitizeInput input = filter allowedChar (case input of None \<Rightarrow> [] | Some str \<Rightarrow> str)"
  by (simp add: sanitizeInput_def split: option.splits)

lemma handleNewGIF_text:
  "handleNewGIF lower gifs rnd now i str g table = (NewGIF i' str' g', table')
   \<Longrightarrow> i' = i \<and> str' = str"
  by (auto simp: handleNewGIF_def Let_def split: option.splits if_splits list.splits)

lemma handleNewGIFWithGif_effect:
  "(map item (jobs (handleNewGIFWithGif i str g now s)) = map item (jobs s) @ [queueItem i str g now]
      \<and> gifQueue (handleNewGIFWithGif i str g now s) = gifQueue s)
   \<or> (jobs (handleNewGIFWithGif i str g now s) = jobs s
      \<and> gifQueue (handleNewGIFWithGif i str g now s) = gifQueue s)
   \<or> (jobs (handleNewGIFWithGif i str g now s) = jobs s
      \<and> gifQueue (handleNewGIFWithGif i str g now s) = gifQueue s @ [queueItem i str g now])"
proof (cases "canProcessMore s \<and> gifQueue s = []")
  case True
  then have "handleNewGIFWithGif i str g now s =
     processGifWithTimeout FastPath (queueItem i str g now) (s\<lparr>processingCount := processingCount s + 1\<rparr>)"
    by (simp add: handleNewGIFWithGif_fast)
  then show ?thesis by simp
next
  case n: False
  show ?thesis
  proof (cases "isQueueFull s")
    case True
    from handleNewGIFWithGif_full [OF n True] show ?thesis by simp
  next
    case nf: False
    show ?thesis
    proof (cases "2 \<le> getUserQueueCount s (user i)")
      case True
      from handleNewGIFWithGif_user [OF n nf True] show ?thesis by simp
    next
      case False
      then have "getUserQueueCount s (user i) < 2" by simp
      from handleNewGIFWithGif_queued [OF n nf this] show ?thesis by simp
    qed
  qed
qed

lemma handleNewGIFWithGif_items:
  assumes "x \<in> set (gifQueue (handleNewGIFWithGif i str g now s))
               \<union> set (map item (jobs (handleNewGIFWithGif i str g now s)))"
  shows "x \<in> set (gifQueue s) \<union> set (map item (jobs s)) \<or> x = queueItem i str g now"
proof -
  define t where "t = handleNewGIFWithGif i str g now s"
  have eff: "(map item (jobs t) = map item (jobs s) @ [queueItem i str g now] \<and> gifQueue t = gifQueue s)
      \<or> (jobs t = jobs s \<and> gifQueue t = gifQueue s)
      \<or> (jobs t = jobs s \<and> gifQueue t = gifQueue s @ [queueItem i str g now])"
    unfolding t_def by (rule handleNewGIFWithGif_effect)
  define A where "A = map item (jobs t)"
  define B where "B = map item (jobs s)"
  from eff have eff': "(A = B @ [queueItem i str g now] \<and> gifQueue t = gifQueue s)
      \<or> (A = B \<and> gifQueue t = gifQueue s)
      \<or> (A = B \<and> gifQueue t = gifQueue s @ [queueItem i str g now])"
    unfolding A_def B_def by metis
  from assms have x: "x \<in> set (gifQueue t) \<union> set A" unfolding t_def A_def .
  from eff' x have "x \<in> set (gifQueue s) \<union> set B \<or> x = queueItem i str g now" by auto
  then show ?thesis unfolding B_def .
qed

text \<open>
  C10: when the handler passes a slash command on to \<open>handleNewGIFWithGif\<close>, the text is
  the text option with every code unit outside \<open>[a-zA-Z0-9_\- ]\<close> removed (the empty
  string for a missing option), the GIF is chosen from the GIF option sanitized the same
  way, and every item that \<open>handleNewGIFWithGif\<close> then puts in the queue or starts
  carries a text of allowed code units only. For a context-menu command the text is the
  content of the message as it is.
\<close>

theorem slash_command_sanitized:
  assumes "interactionCreate bannedUsers lower currentGIFs randomGif now deferred later i table
             = (NewGIF i' str g, table')"
  shows "(kind i = Command \<longrightarrow>
            i' = i
            \<and> str = filter allowedChar (case textOption i of None \<Rightarrow> [] | Some opt \<Rightarrow> opt)
            \<and> (\<forall>c \<in> set str. allowedChar c)
            \<and> (NewGIF i' str g, table')
                = handleNewGIF lower currentGIFs randomGif later i str
                    (Some (filter allowedChar (case gifOption i of None \<Rightarrow> [] | Some opt \<Rightarrow> opt))) table
            \<and> (\<forall>s x. x \<in> set (gifQueue (handleNewGIFWithGif i' str g later s))
                          \<union> set (map item (jobs (handleNewGIFWithGif i' str g later s)))
                     \<longrightarrow> x \<in> set (gifQueue s) \<union> set (map item (jobs s))
                         \<or> (\<forall>c \<in> set (text' x). allowedChar c)))
       \<and> (kind i = MessageContextMenu \<longrightarrow> i' = i \<and> str = targetContent i)"
proof (cases "kind i = Command")
  case True
  with assms have h: "handleNewGIF lower currentGIFs randomGif later i
       (sanitizeInput (textOption i)) (Some (sanitizeInput (gifOption i))) table = (NewGIF i' str g, table')"
    by (simp add: interactionCreate_def isApplicationCommand_def split: if_splits)
  from handleNewGIF_text [OF h] have e1: "i' = i" and e2: "str = sanitizeInput (textOption i)"
    by simp_all
  have c1: "str = filter allowedChar (case textOption i of None \<Rightarrow> [] | Some opt \<Rightarrow> opt)"
    unfolding e2 by (rule sanitizeInput_filter)
  have a: "\<forall>c \<in> set str. allowedChar c" unfolding c1 by simp
  have c3: "(NewGIF i' str g, table')
                = handleNewGIF lower currentGIFs randomGif later i str
                    (Some (filter allowedChar (case gifOption i of None \<Rightarrow> [] | Some opt \<Rightarrow> opt))) table"
    using h unfolding e2 sanitizeInput_filter by simp
  have q: "\<forall>c \<in> set (text' (queueItem i' str g later)). allowedChar c"
    using a by (simp add: queueItem_def)
  have c4: "\<forall>s x. x \<in> set (gifQueue (handleNewGIFWithGif i' str g later s))
                          \<union> set (map item (jobs (handleNewGIFWithGif i' str g later s)))
                     \<longrightarrow> x \<in> set (gifQueue s) \<union> set (map item (jobs s))
                         \<or> (\<forall>c \<in> set (text' x). allowedChar c)"
  proof (intro allI impI)
    fix s x
    assume "x \<in> set (gifQueue (handleNewGIFWithGif i' str g later s))
                          \<union> set (map item (jobs (handleNewGIFWithGif i' str g later s)))"
    from handleNewGIFWithGif_items [OF this] q
    show "x \<in> set (gifQueue s) \<union> set (map item (jobs s)) \<or> (\<forall>c \<in> set (text' x). allowedChar c)"
      by blast
  qed
  have k: "kind i \<noteq> MessageContextMenu" using True by simp
  from e1 c1 a c3 c4 k show ?thesis by blast
next
  case False
  show ?thesis
  proof (cases "kind i = MessageContextMenu")
    case True
    with assms have h: "handleNewGIF lower currentGIFs randomGif later i
                 (targetContent i) None table = (NewGIF i' str g, table')"
      by (simp add: interactionCreate_def isApplicationCommand_def split: if_splits)
    from handleNewGIF_text [OF h] have "i' = i \<and> str = targetContent i" by simp
    with False show ?thesis by blast
  next
    case F2: False
    with False show ?thesis by blast
  qed
qed

lemma slash_handled:
  "interactionCreate [] (\<lambda>str. str) [jerma] jerma 1000 True 1200 slash Map.empty
     = (NewGIF slash [0x48, 0x69, 0x20, 0x62] jerma, recordRequest 1200 ''42'' Map.empty)"
  by (simp add: interactionCreate_def slash_def isRateLimited_def getTimes_def
      MAX_USER_REQUESTS_PER_MINUTE_def handleNewGIF_def sanitizeInput_def allowedChar_def
      returnGIFQuery_def isApplicationCommand_def)

lemma menu_handled:
  "interactionCreate [] (\<lambda>str. str) [jerma] jerma 1000 True 1200 menu Map.empty
     = (NewGIF menu [0x3C, 0x62, 0x3E] jerma, recordRequest 1200 ''42'' Map.empty)"
  by (simp add: interactionCreate_def menu_def isRateLimited_def getTimes_def
      MAX_USER_REQUESTS_PER_MINUTE_def handleNewGIF_def isApplicationCommand_def)

theorem slash_command_sanitized_witness:
  "fst (interactionCreate [] (\<lambda>str. str) [jerma] jerma 1000 True 1200 slash Map.empty)
     = NewGIF slash [0x48, 0x69, 0x20, 0x62] jerma
   \<and> list_all allowedChar [0x48, 0x69, 0x20, 0x62]
   \<and> fst (interactionCreate [] (\<lambda>str. str) [jerma] jerma 1000 True 1200 menu Map.empty)
     = NewGIF menu (targetContent menu) jerma
   \<and> \<not> (\<forall>c \<in> set (targetContent menu). allowedChar c)"
proof -
  have k: "kind slash = Command" "kind menu = MessageContextMenu" by (simp_all add: slash_def menu_def)
  from slash_command_sanitized [OF slash_handled] k
  have 1: "\<forall>c \<in> set [0x48, 0x69, 0x20, 0x62]. allowedChar c" by blast
  from slash_command_sanitized [OF menu_handled] k
  have 2: "[0x3C, 0x62, 0x3E] = targetContent menu" by simp
  have 3: "\<not> (\<forall>c \<in> set (targetContent menu). allowedChar c)"
    by (simp add: menu_def allowedChar_def)
  from 1 have 4: "list_all allowedChar [0x48, 0x69, 0x20, 0x62]" by (simp add: list_all_iff)
  from 2 3 4 slash_handled menu_handled show ?thesis by simp
qed

section \<open>The checks of generateImage\<close>

lemma dropWhile_rev_nonempty:
  "dropWhile P xs \<noteq> [] \<Longrightarrow> dropWhile P (rev (dropWhile P xs)) \<noteq> []"
proof -
  assume n: "dropWhile P xs \<noteq> []"
  then have "\<not> P (hd (dropWhile P xs))" by (rule hd_dropWhile)
  moreover from n have "hd (dropWhile P xs) \<in> set (rev (dropWhile P xs))" by simp
  ultimately show ?thesis by (auto simp: dropWhile_eq_Nil_conv)
qed

lemma trim_empty_iff: "trim str = [] \<longleftrightarrow> (\<forall>c \<in> set str. isWhiteSpace c)"
proof
  assume "trim str = []"
  then have "dropWhile isWhiteSpace (rev (dropWhile isWhiteSpace str)) = []" by (simp add: trim_def)
  with dropWhile_rev_nonempty [of isWhiteSpace str] have "dropWhile isWhiteSpace str = []" by blast
  then show "\<forall>c \<in> set str. isWhiteSpace c" by (simp add: dropWhile_eq_Nil_conv)
next
  assume "\<forall>c \<in> set str. isWhiteSpace c"
  then have "dropWhile isWhiteSpace str = []" by (simp add: dropWhile_eq_Nil_conv)
  then show "trim str = []" unfolding trim_def by (simp only: rev.simps dropWhile.simps)
qed

text \<open>
  C9: \<open>generateImage\<close> rejects a text that is empty or has only white space with "Text
  cannot be empty", and a text of more than 5000 code units with "Text is too long";
  the two checks run in this order, so that a text caught by the first never reaches the
  second, and every text of more than 5000 code units is rejected. Both happen when the
  job is started: the pool and the output files are untouched, the job is over at once,
  and no later step of \<open>generateImage\<close> runs for it.
\<close>

theorem generateImage_rejects:
  "((\<forall>c \<in> set str. isWhiteSpace c) \<longrightarrow> generateImage_checks str = Some TextCannotBeEmpty)
   \<and> (length str > 5000 \<and> \<not> (\<forall>c \<in> set str. isWhiteSpace c) \<longrightarrow>
        generateImage_checks str = Some TextIsTooLong)
   \<and> (length str > 5000 \<longrightarrow> generateImage_checks str \<noteq> None)
   \<and> (generateImage_checks (text' it) = Some e \<longrightarrow>
        BROWSER_POOL (processGifWithTimeout og it s) = BROWSER_POOL s
        \<and> outputs (processGifWithTimeout og it s) = outputs s
        \<and> progress (jobs (processGifWithTimeout og it s) ! length (jobs s)) = Threw e
        \<and> promise (jobs (processGifWithTimeout og it s) ! length (jobs s)) = Rejected e
        \<and> step (processGifWithTimeout og it s) (PrepareDone (length (jobs s)) ok now)
            = processGifWithTimeout og it s
        \<and> step (processGifWithTimeout og it s) (LaunchDone (length (jobs s)) res now)
            = processGifWithTimeout og it s
        \<and> step (processGifWithTimeout og it s) (PageDone (length (jobs s)) ok now)
            = processGifWithTimeout og it s)"
proof -
  have A: "(\<forall>c \<in> set str. isWhiteSpace c) \<longrightarrow> generateImage_checks str = Some TextCannotBeEmpty"
    using trim_empty_iff [of str] by (simp add: generateImage_checks_def)
  have B: "length str > 5000 \<and> \<not> (\<forall>c \<in> set str. isWhiteSpace c) \<longrightarrow>
        generateImage_checks str = Some TextIsTooLong"
  proof
    assume h: "length str > 5000 \<and> \<not> (\<forall>c \<in> set str. isWhiteSpace c)"
    then have "str \<noteq> []" by auto
    moreover from h have "trim str \<noteq> []" using trim_empty_iff [of str] by blast
    ultimately show "generateImage_checks str = Some TextIsTooLong"
      using h by (simp add: generateImage_checks_def)
  qed
  have C: "generateImage_checks (text' it) = Some e \<longrightarrow>
        BROWSER_POOL (processGifWithTimeout og it s) = BROWSER_POOL s
        \<and> outputs (processGifWithTimeout og it s) = outputs s
        \<and> progress (jobs (processGifWithTimeout og it s) ! length (jobs s)) = Threw e
        \<and> promise (jobs (processGifWithTimeout og it s) ! length (jobs s)) = Rejected e
        \<and> step (processGifWithTimeout og it s) (PrepareDone (length (jobs s)) ok now)
            = processGifWithTimeout og it s
        \<and> step (processGifWithTimeout og it s) (LaunchDone (length (jobs s)) res now)
            = processGifWithTimeout og it s
        \<and> step (processGifWithTimeout og it s) (PageDone (length (jobs s)) ok now)
            = processGifWithTimeout og it s"
  proof
    assume r: "generateImage_checks (text' it) = Some e"
    define t where "t = processGifWithTimeout og it s"
    have j: "jobs t ! length (jobs s) = \<lparr>item = it, origin = og, progress = Threw e, timeoutId = Cleared,
                promise = Rejected e, handler = SendingError\<rparr>"
      unfolding t_def by (simp add: processGifWithTimeout_rejected [OF r])
    have p: "progress (jobs t ! length (jobs s)) = Threw e" "promise (jobs t ! length (jobs s)) = Rejected e"
      by (simp_all add: j)
    have f: "BROWSER_POOL t = BROWSER_POOL s" "outputs t = outputs s" unfolding t_def by simp_all
    have 1: "step t (PrepareDone (length (jobs s)) ok now) = t" using p by simp
    have 2: "step t (LaunchDone (length (jobs s)) res now) = t" using p by simp
    have 3: "step t (PageDone (length (jobs s)) ok now) = t" using p by simp
    from p f 1 2 3 show "BROWSER_POOL (processGifWithTimeout og it s) = BROWSER_POOL s
        \<and> outputs (processGifWithTimeout og it s) = outputs s
        \<and> progress (jobs (processGifWithTimeout og it s) ! length (jobs s)) = Threw e
        \<and> promise (jobs (processGifWithTimeout og it s) ! length (jobs s)) = Rejected e
        \<and> step (processGifWithTimeout og it s) (PrepareDone (length (jobs s)) ok now)
            = processGifWithTimeout og it s
        \<and> step (processGifWithTimeout og it s) (LaunchDone (length (jobs s)) res now)
            = processGifWithTimeout og it s
        \<and> step (processGifWithTimeout og it s) (PageDone (length (jobs s)) ok now)
            = processGifWithTimeout og it s"
      unfolding t_def by simp
  qed
  have B': "length str > 5000 \<longrightarrow> generateImage_checks str \<noteq> None"
    using A B by (cases "\<forall>c \<in> set str. isWhiteSpace c") simp_all
  from A B B' C show ?thesis by blast
qed

theorem generateImage_rejects_witness:
  "generateImage_checks [0x20, 0x9, 0x3000] = Some TextCannotBeEmpty
   \<and> generateImage_checks (replicate 5001 0x61) = Some TextIsTooLong
   \<and> progress (jobs (processGifWithTimeout FastPath (queueItem (request ''a'' ''1'') [0x20] jerma 0) initial) ! 0)
       = Threw TextCannotBeEmpty
   \<and> BROWSER_POOL (processGifWithTimeout FastPath (queueItem (request ''a'' ''1'') [0x20] jerma 0) initial)
       = BROWSER_POOL_initial"
proof -
  have w: "\<forall>c \<in> set [0x20, 0x9, 0x3000 :: code_unit]. isWhiteSpace c" by (simp add: isWhiteSpace_def)
  have l: "length (replicate 5001 (0x61 :: code_unit)) > 5000
           \<and> \<not> (\<forall>c \<in> set (replicate 5001 (0x61 :: code_unit)). isWhiteSpace c)"
    by (simp add: isWhiteSpace_def)
  have c: "generateImage_checks (text' (queueItem (request ''a'' ''1'') [0x20] jerma 0)) = Some TextCannotBeEmpty"
    by (simp add: queueItem_def generateImage_checks_def trim_def isWhiteSpace_def)
  have z: "length (jobs initial) = 0" "BROWSER_POOL initial = BROWSER_POOL_initial" by (simp_all add: initial_def)
  from w generateImage_rejects [of "[0x20, 0x9, 0x3000]"]
  have 1: "generateImage_checks [0x20, 0x9, 0x3000] = Some TextCannotBeEmpty" by blast
  from l generateImage_rejects [of "replicate 5001 0x61"]
  have 2: "generateImage_checks (replicate 5001 0x61) = Some TextIsTooLong" by blast
  from c generateImage_rejects [of _ "queueItem (request ''a'' ''1'') [0x20] jerma 0" TextCannotBeEmpty FastPath initial]
  have 3: "progress (jobs (processGifWithTimeout FastPath (queueItem (request ''a'' ''1'') [0x20] jerma 0) initial) ! length (jobs initial))
       = Threw TextCannotBeEmpty
   \<and> BROWSER_POOL (processGifWithTimeout FastPath (queueItem (request ''a'' ''1'') [0x20] jerma 0) initial)
       = BROWSER_POOL initial" by blast
  from 1 2 3 z show ?thesis by simp
qed

text \<open>
  The order of the two checks, on a text of 5001 spaces: it is longer than 5000 code
  units and the first check rejects it.
\<close>

lemma long_blank_text:
  "length (replicate 5001 (0x20 :: code_unit)) > 5000
   \<and> generateImage_checks (replicate 5001 0x20) = Some TextCannotBeEmpty"
  by (simp add: generateImage_checks_def trim_def isWhiteSpace_def)

section \<open>The deadline\<close>

lemma updJob_other: "k \<noteq> j \<Longrightarrow> jobs (updJob j f s) ! k = jobs s ! k"
  by (simp add: updJob_def)

lemma updJob_self: "j < length (jobs s) \<Longrightarrow> jobs (updJob j f s) ! j = f (jobs s ! j)"
  by (simp add: updJob_def)

lemma deadline_step:
  assumes "j < length (jobs s)" "timeoutId (jobs s ! j) = Armed" "promise (jobs s ! j) = Pending"
  shows "step s (DeadlineFired j) =
     editReply (interaction (item (jobs s ! j))) SomethingWentWrong
       (updJob j (\<lambda>jb. jb\<lparr>timeoutId := Fired, promise := Rejected ProcessingTimeout,
                          handler := SendingError\<rparr>) s)"
  using assms by (simp add: reject_def updJob_def editReply_def)

lemma processGifThrows_settled:
  "promise (jobs s ! j) \<noteq> Pending \<Longrightarrow> replies (processGifThrows j e s) = replies s"
proof (cases "j < length (jobs s)")
  case True
  assume "promise (jobs s ! j) \<noteq> Pending"
  with True show ?thesis
    by (simp add: processGifThrows_def reject_def clearTimeout_def updJob_def)
next
  case False
  assume "promise (jobs s ! j) \<noteq> Pending"
  with False show ?thesis
    by (simp add: processGifThrows_def reject_def clearTimeout_def updJob_def list_update_beyond)
qed

lemma generateImageFails_settled:
  "promise (jobs s ! j) \<noteq> Pending \<Longrightarrow> replies (generateImageFails j c now s) = replies s"
  using processGifThrows_settled [of "s\<lparr>BROWSER_POOL := releaseBrowserPage now (BROWSER_POOL s)\<rparr>" j]
  by (simp add: generateImageFails_def)

text \<open>
  C1, as the code has it: when the deadline of a job fires while its promise is pending,
  the failure message is sent to the caller, the promise is rejected, and the work of
  \<open>processGif\<close> goes on where it was, with the pool and the output files untouched. The
  result is not discarded: in any later state of a job so rejected, when \<open>generateGIF\<close>
  succeeds the file is sent to the caller, a second message; when the image or the GIF
  fails instead, nothing more is sent.
\<close>

theorem deadline_fires:
  assumes "j < length (jobs s)" "timeoutId (jobs s ! j) = Armed" "promise (jobs s ! j) = Pending"
  shows "replies (step s (DeadlineFired j))
           = replies s @ [(interactionId (interaction (item (jobs s ! j))), SomethingWentWrong)]
       \<and> promise (jobs (step s (DeadlineFired j)) ! j) = Rejected ProcessingTimeout
       \<and> progress (jobs (step s (DeadlineFired j)) ! j) = progress (jobs s ! j)
       \<and> item (jobs (step s (DeadlineFired j)) ! j) = item (jobs s ! j)
       \<and> BROWSER_POOL (step s (DeadlineFired j)) = BROWSER_POOL s
       \<and> outputs (step s (DeadlineFired j)) = outputs s
       \<and> (k < length (jobs t) \<and> promise (jobs t ! k) = Rejected ProcessingTimeout \<longrightarrow>
            (progress (jobs t ! k) = ComposingGif \<longrightarrow>
               replies (step t (GifDone k True))
                 = replies t @ [(interactionId (interaction (item (jobs t ! k))), Files)])
            \<and> replies (step t (PrepareDone k False now)) = replies t
            \<and> replies (step t (LaunchDone k None now)) = replies t
            \<and> replies (step t (PageDone k False now)) = replies t
            \<and> replies (step t (GifDone k False)) = replies t)"
proof -
  note d = deadline_step [OF assms]
  have 1: "replies (step s (DeadlineFired j))
           = replies s @ [(interactionId (interaction (item (jobs s ! j))), SomethingWentWrong)]"
    unfolding d by simp
  have j: "jobs (step s (DeadlineFired j)) ! j =
     (jobs s ! j)\<lparr>timeoutId := Fired, promise := Rejected ProcessingTimeout, handler := SendingError\<rparr>"
    unfolding d using assms(1) by (simp add: updJob_self)
  have 2: "promise (jobs (step s (DeadlineFired j)) ! j) = Rejected ProcessingTimeout"
    "progress (jobs (step s (DeadlineFired j)) ! j) = progress (jobs s ! j)"
    "item (jobs (step s (DeadlineFired j)) ! j) = item (jobs s ! j)"
    unfolding j by simp_all
  have 3: "BROWSER_POOL (step s (DeadlineFired j)) = BROWSER_POOL s"
    "outputs (step s (DeadlineFired j)) = outputs s"
    unfolding d by simp_all
  have 4: "k < length (jobs t) \<and> promise (jobs t ! k) = Rejected ProcessingTimeout \<longrightarrow>
            (progress (jobs t ! k) = ComposingGif \<longrightarrow>
               replies (step t (GifDone k True))
                 = replies t @ [(interactionId (interaction (item (jobs t ! k))), Files)])
            \<and> replies (step t (PrepareDone k False now)) = replies t
            \<and> replies (step t (LaunchDone k None now)) = replies t
            \<and> replies (step t (PageDone k False now)) = replies t
            \<and> replies (step t (GifDone k False)) = replies t"
  proof
    assume h: "k < length (jobs t) \<and> promise (jobs t ! k) = Rejected ProcessingTimeout"
    then have np: "promise (jobs t ! k) \<noteq> Pending" by simp
    have a: "progress (jobs t ! k) = ComposingGif \<longrightarrow>
               replies (step t (GifDone k True))
                 = replies t @ [(interactionId (interaction (item (jobs t ! k))), Files)]"
      using h by simp
    have b: "replies (step t (PrepareDone k False now)) = replies t"
      using generateImageFails_settled [OF np] by simp
    have c: "replies (step t (LaunchDone k None now)) = replies t"
      using generateImageFails_settled [OF np] by (simp split: progress.splits)
    have e: "replies (step t (PageDone k False now)) = replies t"
      using generateImageFails_settled [OF np] by (simp split: progress.splits)
    have f: "replies (step t (GifDone k False)) = replies t"
      using processGifThrows_settled [OF np] by simp
    from a b c e f show "(progress (jobs t ! k) = ComposingGif \<longrightarrow>
               replies (step t (GifDone k True))
                 = replies t @ [(interactionId (interaction (item (jobs t ! k))), Files)])
            \<and> replies (step t (PrepareDone k False now)) = replies t
            \<and> replies (step t (LaunchDone k None now)) = replies t
            \<and> replies (step t (PageDone k False now)) = replies t
            \<and> replies (step t (GifDone k False)) = replies t" by blast
  qed
  from 1 2 3 4 show ?thesis by blast
qed

lemma late_state:
  "length (jobs (run late)) = 1 \<and> timeoutId (jobs (run late) ! 0) = Armed
   \<and> promise (jobs (run late) ! 0) = Pending \<and> progress (jobs (run late) ! 0) = Launching 5
   \<and> replies (run late) = []
   \<and> interactionId (interaction (item (jobs (run late) ! 0))) = ''a''"
  by code_simp

lemma lateDone_state:
  "length (jobs (run lateDone)) = 1 \<and> promise (jobs (run lateDone) ! 0) = Rejected ProcessingTimeout
   \<and> progress (jobs (run lateDone) ! 0) = ComposingGif
   \<and> replies (run lateDone) = [(''a'', SomethingWentWrong)]
   \<and> interactionId (interaction (item (jobs (run lateDone) ! 0))) = ''a''
   \<and> processingCount (run lateDone) = 0"
  by code_simp

theorem deadline_fires_witness:
  "replies (step (run late) (DeadlineFired 0)) = [(''a'', SomethingWentWrong)]
   \<and> progress (jobs (step (run late) (DeadlineFired 0)) ! 0) = Launching 5
   \<and> replies (step (run lateDone) (GifDone 0 True)) = [(''a'', SomethingWentWrong), (''a'', Files)]
   \<and> replies (step (run lateDone) (GifDone 0 False)) = [(''a'', SomethingWentWrong)]"
proof -
  have a: "0 < length (jobs (run late))" "timeoutId (jobs (run late) ! 0) = Armed"
    "promise (jobs (run late) ! 0) = Pending"
    using late_state by simp_all
  from deadline_fires [OF a, of 0 "run lateDone" 0] late_state lateDone_state show ?thesis
    by (simp del: step.simps)
qed

text \<open>
  The deadline fires while the browser is launching; the job goes on, and its caller gets
  the failure message and then the file.
\<close>

theorem timed_out_job_still_delivers:
  "timeoutId (jobs (run late) ! 0) = Armed
   \<and> progress (jobs (run late) ! 0) = Launching 5
   \<and> replies (run (lateDone @ [GifDone 0 True, FilesReplied 0 True]))
       = [(''a'', SomethingWentWrong), (''a'', Files)]
   \<and> length (filter (\<lambda>r. fst r = ''a'') (replies (run (lateDone @ [GifDone 0 True, FilesReplied 0 True])))) = 2"
  by code_simp

section \<open>The counter, the pool and the next dispatch\<close>

lemma processGifWithTimeout_nth:
  "k < length (jobs s) \<Longrightarrow> jobs (processGifWithTimeout og it s) ! k = jobs s ! k"
proof (cases "generateImage_checks (text' it)")
  case None
  assume "k < length (jobs s)"
  then show ?thesis by (simp add: processGifWithTimeout_accepted [OF None] nth_append)
next
  case (Some e)
  assume "k < length (jobs s)"
  then show ?thesis by (simp add: processGifWithTimeout_rejected [OF Some] nth_append)
qed

lemma processNextInQueue_count:
  "processingCount (processNextInQueue s)
     = processingCount s + (int (length (jobs (processNextInQueue s))) - int (length (jobs s)))"
  by (simp add: processNextInQueue_def split: list.splits)

lemma processNextInQueue_nth:
  "k < length (jobs s) \<Longrightarrow> jobs (processNextInQueue s) ! k = jobs s ! k"
  by (simp add: processNextInQueue_def processGifWithTimeout_nth split: list.splits)

lemma finallyBlock_count:
  "processingCount (finallyBlock j s)
     = processingCount s - 1 + (int (length (jobs (finallyBlock j s))) - int (length (jobs s)))"
proof (cases "origin (jobs s ! j)")
  case FastPath
  then show ?thesis
    using processNextInQueue_count [of "updJob j (\<lambda>jb. jb\<lparr>handler := Completed\<rparr>)
                 (s\<lparr>processingCount := processingCount s - 1\<rparr>)"]
    by (simp add: finallyBlock_def Let_def)
next
  case FromQueue
  then show ?thesis by (simp add: finallyBlock_def Let_def)
qed

lemma finallyBlock_progress:
  "j < length (jobs s) \<Longrightarrow> progress (jobs (finallyBlock j s) ! j) = progress (jobs s ! j)"
proof (cases "origin (jobs s ! j)")
  case FastPath
  assume l: "j < length (jobs s)"
  let ?s1 = "updJob j (\<lambda>jb. jb\<lparr>handler := Completed\<rparr>) (s\<lparr>processingCount := processingCount s - 1\<rparr>)"
  have "j < length (jobs ?s1)" using l by simp
  from processNextInQueue_nth [OF this] FastPath l show ?thesis
    by (simp add: finallyBlock_def Let_def updJob_def)
next
  case FromQueue
  assume "j < length (jobs s)"
  with FromQueue show ?thesis by (simp add: finallyBlock_def Let_def updJob_def)
qed

lemma finallyBlock_fromQueue:
  "origin (jobs s ! j) = FromQueue \<Longrightarrow>
   dispatchTimers (finallyBlock j s) = dispatchTimers s @ [100]
   \<and> gifQueue (finallyBlock j s) = gifQueue s
   \<and> length (jobs (finallyBlock j s)) = length (jobs s)"
  by (simp add: finallyBlock_def Let_def)

lemma finallyBlock_fastPath:
  "origin (jobs s ! j) = FastPath \<Longrightarrow>
   finallyBlock j s = processNextInQueue (updJob j (\<lambda>jb. jb\<lparr>handler := Completed\<rparr>)
                        (s\<lparr>processingCount := processingCount s - 1\<rparr>))
   \<and> dispatchTimers (finallyBlock j s) = dispatchTimers s"
  by (simp add: finallyBlock_def Let_def)

lemma handleNewGIFWithGif_pool [simp]:
  "BROWSER_POOL (handleNewGIFWithGif i str g now s) = BROWSER_POOL s"
  by (simp add: handleNewGIFWithGif_def Let_def addToQueue_def)

lemma step_pool:
  "\<not> settlesGenerateImage ev \<Longrightarrow> BROWSER_POOL (step s ev) = BROWSER_POOL s"
  by (cases ev) (simp_all add: Let_def split: list.splits)

lemma getBrowserPage_busy:
  "browser pool = Some b \<Longrightarrow> inUse pool \<Longrightarrow> getBrowserPage now pool = (BrowserInUse, pool)"
  by (simp add: getBrowserPage_def split: option.splits)

lemma release_then_acquire:
  "browser pool = Some b \<Longrightarrow> page pool = Some p \<Longrightarrow>
   getBrowserPage later (releaseBrowserPage now pool) = (GotPage p, pool\<lparr>inUse := True, lastUsed := later\<rparr>)"
  by (simp add: getBrowserPage_def releaseBrowserPage_def)

text \<open>
  C4, as the code has it: the firing of the deadline leaves the counter as it is; once
  the failure message has been sent the counter is decremented (and incremented again
  for a job that the same \<open>finally\<close> block starts from the queue), while the job goes on
  where it was and the pool is untouched. The page is released only by an event of some
  \<open>generateImage\<close>, and the job that holds it releases it when its own capture ends.
\<close>

theorem counter_and_slot:
  assumes "j < length (jobs s)" "timeoutId (jobs s ! j) = Armed" "promise (jobs s ! j) = Pending"
  shows "processingCount (step s (DeadlineFired j)) = processingCount s
       \<and> processingCount (step (step s (DeadlineFired j)) (ErrorReplied j ok))
           = processingCount s - 1
             + (int (length (jobs (step (step s (DeadlineFired j)) (ErrorReplied j ok))))
                - int (length (jobs s)))
       \<and> progress (jobs (step (step s (DeadlineFired j)) (ErrorReplied j ok)) ! j) = progress (jobs s ! j)
       \<and> BROWSER_POOL (step (step s (DeadlineFired j)) (ErrorReplied j ok)) = BROWSER_POOL s
       \<and> (inUse (BROWSER_POOL t) \<and> \<not> inUse (BROWSER_POOL (step t ev)) \<longrightarrow> settlesGenerateImage ev)
       \<and> (k < length (jobs t) \<and> progress (jobs t ! k) = OnPage p \<longrightarrow>
            \<not> inUse (BROWSER_POOL (step t (PageDone k done now))))"
proof -
  define s1 where "s1 = step s (DeadlineFired j)"
  note d = deadline_step [OF assms]
  have l1: "j < length (jobs s1)" "length (jobs s1) = length (jobs s)"
    unfolding s1_def d using assms(1) by simp_all
  have j1: "jobs s1 ! j =
     (jobs s ! j)\<lparr>timeoutId := Fired, promise := Rejected ProcessingTimeout, handler := SendingError\<rparr>"
    unfolding s1_def d using assms(1) by (simp add: updJob_self)
  have c1: "processingCount s1 = processingCount s" "BROWSER_POOL s1 = BROWSER_POOL s"
    unfolding s1_def d by simp_all
  have e: "step s1 (ErrorReplied j ok) = finallyBlock j s1" using l1 j1 by simp
  have 1: "processingCount (step s1 (ErrorReplied j ok))
           = processingCount s - 1 + (int (length (jobs (step s1 (ErrorReplied j ok)))) - int (length (jobs s)))"
    unfolding e using finallyBlock_count [of j s1] c1 l1 by simp
  have 2: "progress (jobs (step s1 (ErrorReplied j ok)) ! j) = progress (jobs s ! j)"
    unfolding e using finallyBlock_progress [OF l1(1)] j1 by simp
  have 3: "BROWSER_POOL (step s1 (ErrorReplied j ok)) = BROWSER_POOL s"
    unfolding e using c1 by simp
  have 4: "inUse (BROWSER_POOL t) \<and> \<not> inUse (BROWSER_POOL (step t ev)) \<longrightarrow> settlesGenerateImage ev"
  proof (intro impI, rule ccontr)
    assume h: "inUse (BROWSER_POOL t) \<and> \<not> inUse (BROWSER_POOL (step t ev))"
    assume "\<not> settlesGenerateImage ev"
    from step_pool [OF this, of t] h show False by (simp del: step.simps)
  qed
  have 5: "k < length (jobs t) \<and> progress (jobs t ! k) = OnPage p \<longrightarrow>
            \<not> inUse (BROWSER_POOL (step t (PageDone k done now)))"
    by (simp add: releaseBrowserPage_def generateImageFails_def)
  from c1 1 2 3 4 5 show ?thesis unfolding s1_def by blast
qed

lemma held_state:
  "length (jobs (run held)) = 1 \<and> timeoutId (jobs (run held) ! 0) = Armed
   \<and> promise (jobs (run held) ! 0) = Pending \<and> progress (jobs (run held) ! 0) = OnPage 2
   \<and> processingCount (run held) = 1 \<and> inUse (BROWSER_POOL (run held))"
  by code_simp

theorem counter_and_slot_witness:
  "processingCount (step (step (run held) (DeadlineFired 0)) (ErrorReplied 0 True)) = 0
   \<and> progress (jobs (step (step (run held) (DeadlineFired 0)) (ErrorReplied 0 True)) ! 0) = OnPage 2
   \<and> inUse (BROWSER_POOL (step (step (run held) (DeadlineFired 0)) (ErrorReplied 0 True)))
   \<and> \<not> inUse (BROWSER_POOL (step (run held) (PageDone 0 True 7)))"
proof -
  have a: "0 < length (jobs (run held))" "timeoutId (jobs (run held) ! 0) = Armed"
    "promise (jobs (run held) ! 0) = Pending"
    using held_state by simp_all
  have n: "length (jobs (step (step (run held) (DeadlineFired 0)) (ErrorReplied 0 True))) = 1"
    by code_simp
  from counter_and_slot [OF a, of True "run held" "PageDone 0 True 7" 0 2 True 7] held_state n
  show ?thesis by (simp del: step.simps)
qed

text \<open>
  A job holds the page when its deadline fires: the counter goes from 1 to 0 while the
  job is still on the page.
\<close>

theorem counter_drops_at_deadline:
  "processingCount (run held) = 1
   \<and> progress (jobs (run held) ! 0) = OnPage 2
   \<and> processingCount (run (held @ [DeadlineFired 0, ErrorReplied 0 True])) = 0
   \<and> progress (jobs (run (held @ [DeadlineFired 0, ErrorReplied 0 True])) ! 0) = OnPage 2
   \<and> inUse (BROWSER_POOL (run (held @ [DeadlineFired 0, ErrorReplied 0 True])))"
  by code_simp

text \<open>
  C2: at most one job should hold the page. In this run the first job holds page 2; the
  second job finds the browser in use, and the \<open>finally\<close> block of its \<open>generateImage\<close>
  releases the page that the first job holds; the third job is then given page 2 as
  well. (\<open>getBrowserPage_busy\<close> and \<open>release_then_acquire\<close> above are the two parts of the
  claim that hold of \<open>getBrowserPage\<close> and \<open>releaseBrowserPage\<close> alone.)
\<close>

theorem two_jobs_on_one_page:
  "holders (run contention) = [0, 2]
   \<and> progress (jobs (run contention) ! 0) = OnPage 2
   \<and> progress (jobs (run contention) ! 1) = Threw (FailedToGenerateImage InUseError)
   \<and> progress (jobs (run contention) ! 2) = OnPage 2
   \<and> timeoutId (jobs (run contention) ! 0) = Armed
   \<and> timeoutId (jobs (run contention) ! 2) = Armed"
  by code_simp

text \<open>
  C8: the next dispatch should wait 100 ms after every completion. Here a job of the fast
  path completes: the queued job is started in the same step and no timer is set. When a
  job taken from the queue completes, the timer of 100 ms is set.
\<close>

theorem fast_path_completion_dispatches_at_once:
  "origin (jobs (run rush) ! 0) = FastPath
   \<and> progress (jobs (run rush) ! 0) = SendingFiles
   \<and> gifQueue (run rush) = [queueItem (request ''n'' ''9'') hi jerma 9]
   \<and> length (jobs (run rush)) = 5
   \<and> dispatchTimers (step (run rush) (FilesReplied 0 True)) = []
   \<and> gifQueue (step (run rush) (FilesReplied 0 True)) = []
   \<and> length (jobs (step (run rush) (FilesReplied 0 True))) = 6
   \<and> item (jobs (step (run rush) (FilesReplied 0 True)) ! 5) = queueItem (request ''n'' ''9'') hi jerma 9
   \<and> dispatchTimers (run (rush @ [FilesReplied 0 True, PrepareDone 5 False 20, ErrorReplied 5 True])) = [100]"
  by code_simp

end
